theory Spec2Isabelle
  imports Main "HOL-Library.Word"
begin

section \<open>The load-balancer core of \<^verbatim>\<open>src/core/lb_core_advanced.c\<close>\<close>

text \<open>
  A shallow embedding of the backend registry, the two selection strategies, the strategy
  factory and the lifecycle functions \<^verbatim>\<open>lb_core_create\<close> and \<^verbatim>\<open>lb_core_add_backend\<close>.

  Conventions of the embedding:
  \<^item> \<^verbatim>\<open>uint16_t\<close> and \<^verbatim>\<open>uint32_t\<close> (and \<^verbatim>\<open>atomic_uint\<close>) are \<open>16 word\<close> and \<open>32 word\<close>, so
    that every addition wraps as in C;
  \<^item> backends live in a heap, a list of objects; a \<^verbatim>\<open>backend_t*\<close> is an index into that
    list and \<^verbatim>\<open>NULL\<close> is \<open>None\<close>; \<^verbatim>\<open>calloc\<close> appends a zeroed object, or fails when the
    environment says so;
  \<^item> a read outside an array and a load through a pointer that is not in the heap are
    undefined behaviour in C; the model returns a \<open>fault\<close> there;
  \<^item> the code is modelled as one thread runs it: an atomic load is a read, an atomic
    fetch-and-add is a read followed by a write.
\<close>

subsection \<open>Status codes\<close>

datatype lb_status_t =
  LB_OK | LB_ERR_NOMEM | LB_ERR_SYS | LB_ERR_INVAL | LB_ERR_STATE | LB_ERR_LIMIT | LB_ERR_EMPTY

fun lb_status_str :: "lb_status_t \<Rightarrow> string" where
  "lb_status_str LB_OK = ''OK''"
| "lb_status_str LB_ERR_NOMEM = ''NOMEM''"
| "lb_status_str LB_ERR_SYS = ''SYS''"
| "lb_status_str LB_ERR_INVAL = ''INVAL''"
| "lb_status_str LB_ERR_STATE = ''STATE''"
| "lb_status_str LB_ERR_LIMIT = ''LIMIT''"
| "lb_status_str LB_ERR_EMPTY = ''EMPTY''"

datatype lb_log_level_t = LB_LOG_DEBUG | LB_LOG_INFO | LB_LOG_WARN | LB_LOG_ERROR

definition MAX_BACKENDS :: nat where
  "MAX_BACKENDS = 256"

definition MAX_CONNECTIONS :: nat where
  "MAX_CONNECTIONS = 65535"

subsection \<open>Types of \<^verbatim>\<open>core/loadbalancer.h\<close>\<close>

type_synonym u16 = "16 word"
type_synonym u32 = "32 word"
type_synonym ptr = nat

text \<open>
  Modelled from the spec: the header \<^verbatim>\<open>core/loadbalancer.h\<close>, which declares
  \<^verbatim>\<open>lb_algorithm_t\<close>, the backend states and \<^verbatim>\<open>struct lb_backend\<close>, is not among the sources.
  The spec gives a tag with at least \<^verbatim>\<open>ROUNDROBIN\<close> and \<^verbatim>\<open>LEASTCONN\<close>; every other value
  of the C enum is \<open>LB_ALGO_OTHER\<close> with its number.
\<close>

datatype lb_algorithm_t = LB_ALGO_ROUNDROBIN | LB_ALGO_LEASTCONN | LB_ALGO_OTHER int

text \<open>
  Modelled from the spec: the states of a backend are DOWN, UP and the reserved DRAINING.
\<close>

datatype backend_state = BACKEND_DOWN | BACKEND_UP | BACKEND_DRAINING

text \<open>
  Modelled from the spec: \<^verbatim>\<open>sizeof(b->host)\<close>, the size of the host array of a backend
  (\<^verbatim>\<open>host[<=256]\<close>, at most 255 bytes of text and the terminating NUL).
\<close>

definition HOST_SIZE :: nat where
  "HOST_SIZE = 256"

definition NUL :: char where
  "NUL = CHR 0x00"

text \<open>
  Modelled from the spec: the fields of \<^verbatim>\<open>struct lb_backend\<close> that the core reads and
  writes. \<open>host\<close> is the whole character array, \<open>lock\<close> tells whether the spin lock has
  been initialised.
\<close>

record lb_backend =
  host :: "char list"
  port :: u16
  weight :: u32
  state :: backend_state
  active_conns :: u32
  sockfd :: int
  lock :: bool

type_synonym heap = "lb_backend list"

record sockaddr_in =
  sin_port :: u16
  sin_addr :: u32

subsection \<open>Strategy interface, thread pool and core object\<close>

text \<open>
  The strategy record holds function pointers. A function pointer is modelled by the
  name of the function it points to (there is one datatype for each signature), a null
  pointer by \<open>None\<close>; calling through the pointer dispatches on the name.
\<close>

datatype init_fn = Strat_leastconn_init
datatype select_fn = Strat_leastconn_select | Strat_rr_select
datatype teardown_fn = Strat_leastconn_teardown

record lb_strategy =
  name :: string
  init :: "init_fn option"
  select :: "select_fn option"
  teardown :: "teardown_fn option"

text \<open>
  \<open>threads\<close> tells whether the identity array is allocated. The flag \<^verbatim>\<open>running\<close> of the
  pool is \<open>tp_running\<close> here and the \<^verbatim>\<open>port\<close> of the core is \<open>core_port\<close>, since a
  record field name is global.
\<close>

record lb_thread_pool =
  threads :: bool
  nthreads :: u32
  tp_running :: bool

record lb_cfg =
  connect_timeout_ms :: u32
  read_timeout_ms :: u32
  write_timeout_ms :: u32
  keepalive_timeout_ms :: u32
  health_check_interval_ms :: u32
  max_connections :: u32
  tcp_nodelay :: bool
  so_reuseport :: bool
  defer_accept :: bool

record lb_core =
  core_port :: u16
  running :: bool
  epfd :: int
  backend_count :: u32
  backends :: "ptr option list"
  rr_idx :: u32
  algorithm :: lb_algorithm_t
  cfg :: lb_cfg
  mem :: "nat option"
  mem_size :: "64 word"
  backends_lock :: bool
  strategy :: lb_strategy
  tpool :: lb_thread_pool

subsection \<open>Memory accesses that C leaves undefined\<close>

datatype fault = Out_of_bounds | Invalid_pointer

definition array_read :: "'a list \<Rightarrow> nat \<Rightarrow> fault + 'a" where
  "array_read xs i = (if i < length xs then Inr (xs ! i) else Inl Out_of_bounds)"

definition deref :: "heap \<Rightarrow> ptr \<Rightarrow> fault + lb_backend" where
  "deref h p = (if p < length h then Inr (h ! p) else Inl Invalid_pointer)"

subsection \<open>Strategies\<close>

definition UINT32_MAX :: u32 where
  "UINT32_MAX = 0xFFFFFFFF"

text \<open>
  \<^verbatim>\<open>strat_leastconn_select\<close>: the loop over \<open>i\<close>, carrying \<open>sel\<close> and \<open>minc\<close>. The client
  address is not read.
\<close>

function leastconn_scan :: "heap \<Rightarrow> lb_core \<Rightarrow> u32 \<Rightarrow> ptr option \<Rightarrow> u32 \<Rightarrow> fault + ptr option" where
  "leastconn_scan h lb i sel minc =
     (if i < backend_count lb then
        (case array_read (backends lb) (unat i) of
           Inl f \<Rightarrow> Inl f
         | Inr None \<Rightarrow> leastconn_scan h lb (i + 1) sel minc
         | Inr (Some b) \<Rightarrow>
             (case deref h b of
                Inl f \<Rightarrow> Inl f
              | Inr obj \<Rightarrow>
                  if state obj = BACKEND_UP then
                    (let c = active_conns obj in
                     if c < minc then leastconn_scan h lb (i + 1) (Some b) c
                     else leastconn_scan h lb (i + 1) sel minc)
                  else leastconn_scan h lb (i + 1) sel minc))
      else Inr sel)"
  by pat_completeness auto
termination
proof -
  have step: "unat c - unat (i + 1) < unat c - unat i" if "i < c" for i c :: u32
    using that unsigned_less [of c, where 'a = nat]
    by (simp add: word_less_nat_alt unat_word_ariths)
  show ?thesis
    by (relation "measure (\<lambda>(h, lb, i, sel, minc). unat (backend_count lb) - unat i)")
       (auto intro: step)
qed

definition strat_leastconn_select ::
  "heap \<Rightarrow> lb_core \<Rightarrow> sockaddr_in option \<Rightarrow> fault + ptr option" where
  "strat_leastconn_select h lb client = leastconn_scan h lb 0 None UINT32_MAX"

definition strat_leastconn_init :: "lb_core \<Rightarrow> lb_status_t" where
  "strat_leastconn_init lb = LB_OK"

definition strat_leastconn_teardown :: "lb_core \<Rightarrow> unit" where
  "strat_leastconn_teardown lb = ()"

definition STRAT_LEASTCONN :: lb_strategy where
  "STRAT_LEASTCONN =
     \<lparr>name = ''leastconn'', init = Some Strat_leastconn_init,
      select = Some Strat_leastconn_select, teardown = Some Strat_leastconn_teardown\<rparr>"

text \<open>
  \<^verbatim>\<open>strat_rr_select\<close>: the loop over \<open>tries\<close>. \<^verbatim>\<open>atomic_fetch_add\<close> returns the old
  cursor and stores the cursor plus one, which wraps at \<open>2 ^ 32\<close>.
\<close>

function rr_attempts :: "heap \<Rightarrow> lb_core \<Rightarrow> u32 \<Rightarrow> fault + (ptr option \<times> lb_core)" where
  "rr_attempts h lb tries =
     (if tries < backend_count lb then
        (let cur = rr_idx lb;
             lb' = lb\<lparr>rr_idx := cur + 1\<rparr>;
             idx = cur mod backend_count lb'
         in case array_read (backends lb') (unat idx) of
              Inl f \<Rightarrow> Inl f
            | Inr None \<Rightarrow> rr_attempts h lb' (tries + 1)
            | Inr (Some b) \<Rightarrow>
                (case deref h b of
                   Inl f \<Rightarrow> Inl f
                 | Inr obj \<Rightarrow>
                     if state obj = BACKEND_UP then Inr (Some b, lb')
                     else rr_attempts h lb' (tries + 1)))
      else Inr (None, lb))"
  by pat_completeness auto
termination
proof -
  have step: "unat c - unat (i + 1) < unat c - unat i" if "i < c" for i c :: u32
    using that unsigned_less [of c, where 'a = nat]
    by (simp add: word_less_nat_alt unat_word_ariths)
  show ?thesis
    by (relation "measure (\<lambda>(h, lb, tries). unat (backend_count lb) - unat tries)")
       (auto intro: step)
qed

definition strat_rr_select ::
  "heap \<Rightarrow> lb_core \<Rightarrow> sockaddr_in option \<Rightarrow> fault + (ptr option \<times> lb_core)" where
  "strat_rr_select h lb client =
     (if backend_count lb = 0 then Inr (None, lb) else rr_attempts h lb 0)"

definition STRAT_RR :: lb_strategy where
  "STRAT_RR =
     \<lparr>name = ''roundrobin'', init = Some Strat_leastconn_init,
      select = Some Strat_rr_select, teardown = Some Strat_leastconn_teardown\<rparr>"

fun lb_strategy_from_algo :: "lb_algorithm_t \<Rightarrow> lb_strategy" where
  "lb_strategy_from_algo LB_ALGO_LEASTCONN = STRAT_LEASTCONN"
| "lb_strategy_from_algo LB_ALGO_ROUNDROBIN = STRAT_RR"
| "lb_strategy_from_algo (LB_ALGO_OTHER a) = STRAT_LEASTCONN"

text \<open>Calls through the function pointers of a strategy.\<close>

fun call_init :: "init_fn \<Rightarrow> lb_core \<Rightarrow> lb_status_t" where
  "call_init Strat_leastconn_init lb = strat_leastconn_init lb"

fun call_select ::
  "select_fn \<Rightarrow> heap \<Rightarrow> lb_core \<Rightarrow> sockaddr_in option \<Rightarrow> fault + (ptr option \<times> lb_core)" where
  "call_select Strat_leastconn_select h lb client =
     (case strat_leastconn_select h lb client of Inl f \<Rightarrow> Inl f | Inr r \<Rightarrow> Inr (r, lb))"
| "call_select Strat_rr_select h lb client = strat_rr_select h lb client"

subsection \<open>Thread pool stub\<close>

text \<open>
  \<^verbatim>\<open>lb_thread_pool_start\<close>; \<open>calloc_ok\<close> tells whether the allocation of the identity
  array succeeds.
\<close>

definition lb_thread_pool_start ::
  "bool \<Rightarrow> lb_thread_pool option \<Rightarrow> u32 \<Rightarrow> lb_status_t \<times> lb_thread_pool option" where
  "lb_thread_pool_start calloc_ok tp n =
     (case tp of
        None \<Rightarrow> (LB_ERR_INVAL, None)
      | Some p \<Rightarrow>
          if n = 0 then (LB_ERR_INVAL, Some p)
          else if \<not> calloc_ok then (LB_ERR_NOMEM, Some (p\<lparr>threads := False\<rparr>))
          else (LB_OK, Some (p\<lparr>threads := True, nthreads := n, tp_running := True\<rparr>)))"

subsection \<open>Creation of the core\<close>

text \<open>
  What the operating system answers during \<^verbatim>\<open>lb_core_create\<close>: whether \<^verbatim>\<open>calloc\<close> of the
  core succeeds, the value of \<^verbatim>\<open>epoll_create1\<close>, the address \<^verbatim>\<open>mmap\<close> returns (\<open>None\<close> for
  \<^verbatim>\<open>MAP_FAILED\<close>), the value of \<^verbatim>\<open>sysconf(_SC_NPROCESSORS_ONLN)\<close> and whether \<^verbatim>\<open>calloc\<close> of
  the thread identities succeeds.
\<close>

record create_env =
  calloc_core :: bool
  epoll_create1 :: int
  mmap :: "nat option"
  sysconf_cpu :: int
  calloc_threads :: bool

text \<open>
  The calls \<^verbatim>\<open>lb_core_create\<close> makes to the library and to the logging macros, in the
  order in which it makes them.
\<close>

datatype log_arg = Arg_str string | Arg_uint nat

datatype call =
    Calloc_core
  | Epoll_create1
  | Free_core
  | Spin_init_backends_lock
  | Mmap
  | Log lb_log_level_t string string "log_arg list"
  | Close int
  | Spin_destroy_backends_lock
  | Sysconf
  | Thread_pool_start

text \<open>
  The core as \<^verbatim>\<open>calloc\<close> returns it, every byte zero. The enumerator of \<^verbatim>\<open>lb_algorithm_t\<close>
  with value 0 is not known; the field is written before it is read.
\<close>

definition calloc_lb_core :: lb_core where
  "calloc_lb_core =
     \<lparr>core_port = 0, running = False, epfd = 0, backend_count = 0,
      backends = replicate MAX_BACKENDS None, rr_idx = 0, algorithm = LB_ALGO_OTHER 0,
      cfg = \<lparr>connect_timeout_ms = 0, read_timeout_ms = 0, write_timeout_ms = 0,
             keepalive_timeout_ms = 0, health_check_interval_ms = 0, max_connections = 0,
             tcp_nodelay = False, so_reuseport = False, defer_accept = False\<rparr>,
      mem = None, mem_size = 0, backends_lock = False,
      strategy = \<lparr>name = [], init = None, select = None, teardown = None\<rparr>,
      tpool = \<lparr>threads = False, nthreads = 0, tp_running = False\<rparr>\<rparr>"

text \<open>
  \<^verbatim>\<open>lb_core_create(port, algo, out)\<close>. \<open>out\<close> tells whether the output pointer is non-null.
  The result is the status, the value left in \<^verbatim>\<open>*out\<close> (\<open>None\<close> for \<^verbatim>\<open>NULL\<close>, and when
  there is no output slot) and the calls made.
\<close>

definition lb_core_create ::
  "create_env \<Rightarrow> u16 \<Rightarrow> lb_algorithm_t \<Rightarrow> bool \<Rightarrow> lb_status_t \<times> lb_core option \<times> call list" where
  "lb_core_create env port_a algo out =
     (if \<not> out then (LB_ERR_INVAL, None, [])
      else if \<not> calloc_core env then (LB_ERR_NOMEM, None, [Calloc_core])
      else
        (let lb = calloc_lb_core\<lparr>core_port := port_a, running := False,
                                 epfd := epoll_create1 env\<rparr>
         in if epfd lb < 0 then
              (LB_ERR_SYS, None, [Calloc_core, Epoll_create1, Free_core])
            else
              (let lb = lb\<lparr>cfg := \<lparr>connect_timeout_ms = 5000, read_timeout_ms = 30000,
                                    write_timeout_ms = 30000, keepalive_timeout_ms = 60000,
                                    health_check_interval_ms = 5000,
                                    max_connections = of_nat MAX_CONNECTIONS,
                                    tcp_nodelay = True, so_reuseport = True,
                                    defer_accept = True\<rparr>,
                           backends_lock := True,
                           mem_size := 64 * 1024 * 1024,
                           mem := mmap env\<rparr>;
                   tr = [Calloc_core, Epoll_create1, Spin_init_backends_lock, Mmap];
                   (lb, tr) =
                     (if mem lb = None then
                        (lb\<lparr>mem := None, mem_size := 0\<rparr>,
                         tr @ [Log LB_LOG_WARN ''core'' ''Memory pool disabled: mmap failed'' []])
                      else (lb, tr));
                   lb = lb\<lparr>algorithm := algo\<rparr>;
                   lb = lb\<lparr>strategy := lb_strategy_from_algo algo\<rparr>;
                   s = (case init (strategy lb) of
                          Some f \<Rightarrow> call_init f lb
                        | None \<Rightarrow> LB_OK)
               in if s \<noteq> LB_OK then
                    (s, None,
                     tr @ [Log LB_LOG_ERROR ''core'' ''Strategy init failed: %s''
                             [Arg_str (name (strategy lb))],
                           Close (epfd lb), Spin_destroy_backends_lock, Free_core])
                  else
                    (let cpu = sysconf_cpu env;
                         n = (word_of_int (if cpu > 0 then cpu else 1) :: u32);
                         (s, tp) = lb_thread_pool_start (calloc_threads env) (Some (tpool lb)) n;
                         lb = (case tp of Some p \<Rightarrow> lb\<lparr>tpool := p\<rparr> | None \<Rightarrow> lb);
                         tr = tr @ [Sysconf, Thread_pool_start];
                         tr = (if s \<noteq> LB_OK then
                                 tr @ [Log LB_LOG_WARN ''core'' ''Thread-pool not started: %s''
                                         [Arg_str (lb_status_str s)]]
                               else tr)
                     in (LB_OK, Some lb,
                         tr @ [Log LB_LOG_INFO ''core''
                                 ''lb_core created on port %u with strategy %s''
                                 [Arg_uint (unat port_a), Arg_str (name (strategy lb))]])))))"

subsection \<open>Adding a backend\<close>

text \<open>
  \<^verbatim>\<open>strncpy(dst, src, n)\<close> on a destination of at least \<open>n\<close> bytes: the bytes of \<open>src\<close>
  before its first NUL, at most \<open>n\<close> of them, then NUL bytes up to \<open>n\<close>; the bytes of
  \<open>dst\<close> from \<open>n\<close> on are not written. \<open>c_str\<close> reads a character array as C does, up
  to the first NUL.
\<close>

definition c_str :: "char list \<Rightarrow> string" where
  "c_str buf = takeWhile (\<lambda>c. c \<noteq> NUL) buf"

definition strncpy :: "char list \<Rightarrow> string \<Rightarrow> nat \<Rightarrow> char list" where
  "strncpy dst src n =
     (let s = take n (c_str src) in s @ replicate (n - length s) NUL @ drop n dst)"

text \<open>
  A backend as \<^verbatim>\<open>calloc\<close> returns it. The enumerator of the state with value 0 is not
  known; the field is written before it is read.
\<close>

definition calloc_backend :: lb_backend where
  "calloc_backend =
     \<lparr>host = replicate HOST_SIZE NUL, port = 0, weight = 0, state = BACKEND_DOWN,
      active_conns = 0, sockfd = 0, lock = False\<rparr>"

text \<open>
  \<^verbatim>\<open>lb_core_add_backend(lb, host, port, weight)\<close>. \<open>calloc_ok\<close> tells whether the allocation
  of the backend succeeds; the new object gets the next address of the heap. A null \<open>lb\<close>
  or \<open>host\<close> is \<open>None\<close>. The result is the status, the heap and the core after the call.
  The slot written is below \<open>MAX_BACKENDS\<close>, the size of the array, by the check before.
  The log line of the function is left out.
\<close>

definition lb_core_add_backend ::
  "bool \<Rightarrow> heap \<Rightarrow> lb_core option \<Rightarrow> string option \<Rightarrow> u16 \<Rightarrow> u32
     \<Rightarrow> lb_status_t \<times> heap \<times> lb_core option" where
  "lb_core_add_backend calloc_ok h lb host_a port_a weight_a =
     (case lb of
        None \<Rightarrow> (LB_ERR_INVAL, h, lb)
      | Some c \<Rightarrow>
          (case host_a of
             None \<Rightarrow> (LB_ERR_INVAL, h, lb)
           | Some s \<Rightarrow>
               if port_a = 0 then (LB_ERR_INVAL, h, lb)
               else if MAX_BACKENDS \<le> unat (backend_count c) then (LB_ERR_LIMIT, h, lb)
               else if \<not> calloc_ok then (LB_ERR_NOMEM, h, lb)
               else
                 (let b = length h;
                      obj = calloc_backend;
                      obj = obj\<lparr>host := strncpy (host obj) s (HOST_SIZE - 1)\<rparr>;
                      obj = obj\<lparr>port := port_a\<rparr>;
                      obj = obj\<lparr>weight := (if weight_a \<noteq> 0 then weight_a else 1)\<rparr>;
                      obj = obj\<lparr>state := BACKEND_DOWN\<rparr>;
                      obj = obj\<lparr>sockfd := - 1\<rparr>;
                      obj = obj\<lparr>lock := True\<rparr>;
                      c = c\<lparr>backends := (backends c)[unat (backend_count c) := Some b],
                             backend_count := backend_count c + 1\<rparr>
                  in (LB_OK, h @ [obj], Some c))))"

subsection \<open>Sequences of calls\<close>

text \<open>
  A call of \<^verbatim>\<open>lb_core_add_backend\<close> on a core: whether its allocation succeeds, and the
  arguments \<open>host\<close>, \<open>port\<close> and \<open>weight\<close>. \<open>add_backends\<close> makes the calls of a list one
  after the other on the same core and collects the statuses.
\<close>

type_synonym add_call = "bool \<times> string option \<times> u16 \<times> u32"

fun add_backends ::
  "heap \<Rightarrow> lb_core option \<Rightarrow> add_call list \<Rightarrow> lb_status_t list \<times> heap \<times> lb_core option" where
  "add_backends h lb [] = ([], h, lb)"
| "add_backends h lb ((ok, host_a, port_a, weight_a) # calls) =
     (case lb_core_add_backend ok h lb host_a port_a weight_a of
        (s, h', lb') \<Rightarrow>
          (case add_backends h' lb' calls of
             (ss, h'', lb'') \<Rightarrow> (s # ss, h'', lb'')))"

text \<open>
  \<open>rr_selects h lb n\<close>: \<open>n\<close> successive round-robin selections on the core, the heap held
  constant; the backends returned, in order, and the core after the last one.
\<close>

fun rr_selects :: "heap \<Rightarrow> lb_core \<Rightarrow> nat \<Rightarrow> fault + (ptr option list \<times> lb_core)" where
  "rr_selects h lb 0 = Inr ([], lb)"
| "rr_selects h lb (Suc n) =
     (case strat_rr_select h lb None of
        Inl f \<Rightarrow> Inl f
      | Inr (r, lb') \<Rightarrow>
          (case rr_selects h lb' n of
             Inl f \<Rightarrow> Inl f
           | Inr (rs, lb'') \<Rightarrow> Inr (r # rs, lb'')))"

subsection \<open>Well-formed cores\<close>

text \<open>
  The array has \<open>MAX_BACKENDS\<close> slots, the count is within it, and every non-null
  pointer below the count is the address of an object of the heap.
\<close>

definition valid_ptr :: "heap \<Rightarrow> ptr option \<Rightarrow> bool" where
  "valid_ptr h p = (case p of None \<Rightarrow> True | Some b \<Rightarrow> b < length h)"

definition wf_core :: "heap \<Rightarrow> lb_core \<Rightarrow> bool" where
  "wf_core h lb =
     (length (backends lb) = MAX_BACKENDS \<and> unat (backend_count lb) \<le> MAX_BACKENDS \<and>
      list_all (valid_ptr h) (take (unat (backend_count lb)) (backends lb)))"

subsection \<open>Notions used in the statements\<close>

text \<open>A slot holds a backend that is UP.\<close>

definition is_up :: "heap \<Rightarrow> ptr option \<Rightarrow> bool" where
  "is_up h p = (case p of None \<Rightarrow> False | Some b \<Rightarrow> b < length h \<and> state (h ! b) = BACKEND_UP)"

text \<open>
  The slot that the \<open>k\<close>-th attempt (counted from 0) of a round-robin selection probes:
  the cursor has been incremented \<open>k\<close> times, and the index is the cursor modulo the count.
\<close>

definition rr_probe :: "lb_core \<Rightarrow> nat \<Rightarrow> ptr option" where
  "rr_probe lb k = backends lb ! unat ((rr_idx lb + of_nat k) mod backend_count lb)"

text \<open>
  Every slot below the count holds a backend that is UP; and the number of times a pointer
  is returned by \<open>n\<close> successive round-robin selections.
\<close>

definition all_up :: "heap \<Rightarrow> lb_core \<Rightarrow> bool" where
  "all_up h lb = list_all (is_up h) (take (unat (backend_count lb)) (backends lb))"

definition rr_count :: "heap \<Rightarrow> lb_core \<Rightarrow> nat \<Rightarrow> ptr option \<Rightarrow> fault + nat" where
  "rr_count h lb n p =
     (case rr_selects h lb n of Inl f \<Rightarrow> Inl f | Inr (rs, lb') \<Rightarrow> Inr (count_list rs p))"

text \<open>
  The backend that a successful \<^verbatim>\<open>lb_core_add_backend(lb, host, port, weight)\<close> constructs:
  the zeroed object after the six stores of the function.
\<close>

definition created_backend :: "string \<Rightarrow> u16 \<Rightarrow> u32 \<Rightarrow> lb_backend" where
  "created_backend s port_a weight_a =
     calloc_backend\<lparr>host := strncpy (host calloc_backend) s (HOST_SIZE - 1), port := port_a,
                    weight := (if weight_a \<noteq> 0 then weight_a else 1), state := BACKEND_DOWN,
                    sockfd := - 1, lock := True\<rparr>"

text \<open>
  The backends constructed by the calls of a list that returned \<open>LB_OK\<close>, in call order;
  and the registry after a list of calls: the count has grown by the number of \<open>LB_OK\<close>,
  the heap by the backends constructed, and the slots below the count are the slots
  below the old count followed by the addresses of the new backends, in call order.
\<close>

fun created_by :: "add_call list \<Rightarrow> lb_status_t list \<Rightarrow> lb_backend list" where
  "created_by ((ok, Some s, port_a, weight_a) # calls) (LB_OK # ss) =
     created_backend s port_a weight_a # created_by calls ss"
| "created_by (call # calls) (st # ss) = created_by calls ss"
| "created_by calls ss = []"

definition registry_after ::
  "heap \<Rightarrow> lb_core \<Rightarrow> add_call list \<Rightarrow> lb_status_t list \<Rightarrow> heap \<Rightarrow> lb_core option \<Rightarrow> bool" where
  "registry_after h c calls ss h' lb' =
     (case lb' of
        None \<Rightarrow> False
      | Some c' \<Rightarrow>
          length ss = length calls \<and>
          unat (backend_count c') = unat (backend_count c) + count_list ss LB_OK \<and>
          h' = h @ created_by calls ss \<and>
          take (unat (backend_count c')) (backends c') =
            take (unat (backend_count c)) (backends c) @ map Some [length h..<length h'] \<and>
          length (backends c') = length (backends c))"

text \<open>
  The calls that only the strategy-init failure branch of \<^verbatim>\<open>lb_core_create\<close> makes: the
  error log, the close of the notification descriptor and the destruction of the registry
  lock. (\<^verbatim>\<open>free\<close> of the core is also made when \<^verbatim>\<open>epoll_create1\<close> fails.)
\<close>

fun init_failure_call :: "call \<Rightarrow> bool" where
  "init_failure_call (Log LB_LOG_ERROR cat fmt args) = True"
| "init_failure_call (Close fd) = True"
| "init_failure_call Spin_destroy_backends_lock = True"
| "init_failure_call c = False"

text \<open>
  The core that a successful \<^verbatim>\<open>lb_core_create\<close> leaves in \<^verbatim>\<open>*out\<close>, field by field.
\<close>

definition created_core :: "create_env \<Rightarrow> u16 \<Rightarrow> lb_algorithm_t \<Rightarrow> lb_core" where
  "created_core env port_a algo =
     (let cpu = sysconf_cpu env;
          n = (word_of_int (if cpu > 0 then cpu else 1) :: u32)
      in calloc_lb_core
           \<lparr>core_port := port_a, epfd := epoll_create1 env,
            algorithm := algo,
            cfg := \<lparr>connect_timeout_ms = 5000, read_timeout_ms = 30000,
                     write_timeout_ms = 30000, keepalive_timeout_ms = 60000,
                     health_check_interval_ms = 5000, max_connections = 65535,
                     tcp_nodelay = True, so_reuseport = True, defer_accept = True\<rparr>,
            mem := mmap env,
            mem_size := (if mmap env = None then 0 else 67108864),
            backends_lock := True,
            strategy := lb_strategy_from_algo algo,
            tpool := (if n \<noteq> 0 \<and> calloc_threads env
                      then \<lparr>threads = True, nthreads = n, tp_running = True\<rparr>
                      else \<lparr>threads = False, nthreads = 0, tp_running = False\<rparr>)\<rparr>)"




subsection \<open>Example registries\<close>

text \<open>
  An environment in which creation succeeds (without memory arena and without thread
  pool), the core that \<^verbatim>\<open>lb_core_create\<close> returns in it for port 8080 and round-robin, and
  a list of four calls of \<^verbatim>\<open>lb_core_add_backend\<close>, the second with port 0 and the third
  without memory.
\<close>

definition example_env :: create_env where
  "example_env =
     \<lparr>calloc_core = True, epoll_create1 = 3, mmap = None, sysconf_cpu = 4,
      calloc_threads = False\<rparr>"

definition fresh_core :: lb_core where
  "fresh_core = created_core example_env 8080 LB_ALGO_ROUNDROBIN"

definition example_calls :: "add_call list" where
  "example_calls =
     [(True, Some ''10.0.0.1'', 80, 1), (True, Some ''10.0.0.2'', 0, 1),
      (False, Some ''10.0.0.3'', 80, 1), (True, Some ''10.0.0.4'', 80, 0)]"

text \<open>
  The registry of three backends: the calls that add them, the created core after these
  calls with its cursor set, and the heap after these calls with the states and the
  numbers of active connections set. A core whose registry is full.
\<close>

definition three_calls :: "add_call list" where
  "three_calls =
     [(True, Some ''10.0.0.1'', 80, 1), (True, Some ''10.0.0.2'', 80, 1),
      (True, Some ''10.0.0.3'', 80, 1)]"

definition example_core :: "lb_algorithm_t \<Rightarrow> u32 \<Rightarrow> lb_core" where
  "example_core algo cursor =
     (created_core example_env 8080 algo)
       \<lparr>backends := Some 0 # Some 1 # Some 2 # replicate 253 None,
        backend_count := 3, rr_idx := cursor\<rparr>"

definition example_backend :: "string \<Rightarrow> backend_state \<Rightarrow> u32 \<Rightarrow> lb_backend" where
  "example_backend s st n = (created_backend s 80 1)\<lparr>state := st, active_conns := n\<rparr>"

definition example_heap :: "backend_state list \<Rightarrow> u32 list \<Rightarrow> heap" where
  "example_heap sts ns =
     map (\<lambda>(s, st, n). example_backend s st n)
       (zip [''10.0.0.1'', ''10.0.0.2'', ''10.0.0.3''] (zip sts ns))"

definition full_core :: lb_core where
  "full_core = fresh_core\<lparr>backends := map Some [0..<256], backend_count := 256\<rparr>"

section \<open>Properties\<close>

declare rr_attempts.simps [simp del] leastconn_scan.simps [simp del]

subsection \<open>Auxiliary facts\<close>

lemma u32_succ: "unat (i + 1) = Suc (unat i)" if "i < c" for i c :: u32
  using that unsigned_less [of c, where 'a = nat]
  by (simp add: word_less_nat_alt unat_word_ariths)

lemma find_map_shift: "find P (map f xs) = map_option f (find (\<lambda>x. P (f x)) xs)"
  by (induction xs) simp_all

lemma find_upt_Suc:
  "find P [0..<Suc n] = (if P 0 then Some 0 else map_option Suc (find (\<lambda>k. P (Suc k)) [0..<n]))"
proof -
  have "[0..<Suc n] = 0 # map Suc [0..<n]"
    by (simp add: upt_conv_Cons map_Suc_upt del: upt_Suc)
  then show ?thesis
    by (simp add: find_map_shift del: upt_Suc)
qed

lemma less_3: "(j < (3::nat)) = (j = 0 \<or> j = 1 \<or> j = 2)"
  by auto

lemma length_filter_upt_card: "length (filter P [0..<n]) = card {i. i < n \<and> P i}"
proof -
  have "distinct (filter P [0..<n])"
    by simp
  then have "length (filter P [0..<n]) = card (set (filter P [0..<n]))"
    by (simp only: distinct_card)
  also have "set (filter P [0..<n]) = {i. i < n \<and> P i}"
    by auto
  finally show ?thesis .
qed

lemma wf_core_rr_idx [simp]: "wf_core h (lb\<lparr>rr_idx := c\<rparr>) = wf_core h lb"
  by (simp add: wf_core_def)

lemma wf_slot:
  assumes "wf_core h lb" and "i < unat (backend_count lb)"
  shows "array_read (backends lb) i = Inr (backends lb ! i)" and "valid_ptr h (backends lb ! i)"
  using assms by (simp_all add: wf_core_def array_read_def list_all_length)

lemma mod_slot: "c \<noteq> 0 \<Longrightarrow> unat (x mod c) < unat c" for x c :: u32
  by (simp add: unat_mod unat_gt_0)

lemma replicate_256: "replicate 256 x = x # x # x # replicate 253 x"
proof -
  have "replicate 256 x = replicate (Suc (Suc (Suc 253))) x"
    by simp
  then show ?thesis
    by (simp only: replicate_Suc)
qed

lemma created_core_sel [simp]:
  "backend_count (created_core env port_a algo) = 0"
  "rr_idx (created_core env port_a algo) = 0"
  "backends (created_core env port_a algo) = replicate MAX_BACKENDS None"
  "strategy (created_core env port_a algo) = lb_strategy_from_algo algo"
  by (simp_all add: created_core_def calloc_lb_core_def Let_def)

lemma fresh_core_sel [simp]:
  "backend_count fresh_core = 0"
  "backends fresh_core = replicate MAX_BACKENDS None"
  by (simp_all add: fresh_core_def)

lemma example_core_sel [simp]:
  "backend_count (example_core algo cur) = 3"
  "rr_idx (example_core algo cur) = cur"
  "backends (example_core algo cur) = Some 0 # Some 1 # Some 2 # replicate 253 None"
  by (simp_all add: example_core_def)

lemma example_heap_sel:
  "example_heap [a, b, c] [x, y, z] =
     [example_backend ''10.0.0.1'' a x, example_backend ''10.0.0.2'' b y,
      example_backend ''10.0.0.3'' c z]"
  by (simp add: example_heap_def)

lemma example_backend_sel [simp]:
  "state (example_backend s st n) = st"
  "active_conns (example_backend s st n) = n"
  by (simp_all add: example_backend_def)

lemma wf_example [simp]: "wf_core (example_heap [a, b, c] [x, y, z]) (example_core algo cur)"
  by (simp add: wf_core_def MAX_BACKENDS_def valid_ptr_def example_heap_sel)

lemma all_up_example [simp]:
  "all_up (example_heap [BACKEND_UP, BACKEND_UP, BACKEND_UP] [x, y, z]) (example_core algo cur)"
  by (simp add: all_up_def is_up_def example_heap_sel)

subsection \<open>Round-robin selection\<close>

lemma rr_probe_shift [simp]: "rr_probe (lb\<lparr>rr_idx := rr_idx lb + 1\<rparr>) k = rr_probe lb (Suc k)"
  by (simp add: rr_probe_def add.commute add.left_commute)

text \<open>One attempt of the loop: it returns the slot probed when that is UP, and goes on otherwise.\<close>

lemma rr_step:
  assumes wf: "wf_core h lb" and lt: "tries < backend_count lb"
  shows "rr_attempts h lb tries =
           (if is_up h (rr_probe lb 0) then Inr (rr_probe lb 0, lb\<lparr>rr_idx := rr_idx lb + 1\<rparr>)
            else rr_attempts h (lb\<lparr>rr_idx := rr_idx lb + 1\<rparr>) (tries + 1))"
proof -
  from lt have nz: "backend_count lb \<noteq> 0" by auto
  let ?i = "unat (rr_idx lb mod backend_count lb)"
  have i: "?i < unat (backend_count lb)" using nz by (rule mod_slot)
  note s = wf_slot [OF wf i]
  show ?thesis
  proof (cases "backends lb ! ?i")
    case None
    with s lt show ?thesis
      by (subst rr_attempts.simps) (simp add: rr_probe_def is_up_def)
  next
    case (Some b)
    with s have "b < length h" by (simp add: valid_ptr_def)
    with Some s lt show ?thesis
      by (subst rr_attempts.simps) (simp add: rr_probe_def is_up_def deref_def)
  qed
qed

lemma rr_attempts_find:
  assumes "wf_core h lb" and "unat (backend_count lb) - unat tries = n"
    and "tries \<le> backend_count lb"
  shows "rr_attempts h lb tries =
           Inr (case find (\<lambda>k. is_up h (rr_probe lb k)) [0..<n] of
                  None \<Rightarrow> (None, lb\<lparr>rr_idx := rr_idx lb + of_nat n\<rparr>)
                | Some k \<Rightarrow> (rr_probe lb k, lb\<lparr>rr_idx := rr_idx lb + of_nat k + 1\<rparr>))"
  using assms
proof (induction n arbitrary: lb tries)
  case 0
  then have "\<not> tries < backend_count lb"
    by (simp add: word_less_nat_alt word_le_nat_alt)
  then show ?case
    by (subst rr_attempts.simps) simp
next
  case (Suc n)
  then have lt: "tries < backend_count lb"
    by (simp add: word_less_nat_alt)
  let ?lb = "lb\<lparr>rr_idx := rr_idx lb + 1\<rparr>"
  have t1: "unat (tries + 1) = Suc (unat tries)" using lt by (rule u32_succ)
  show ?case
  proof (cases "is_up h (rr_probe lb 0)")
    case True
    then show ?thesis
      using Suc.prems lt by (simp add: rr_step find_upt_Suc del: upt_Suc)
  next
    case False
    have "rr_attempts h ?lb (tries + 1) =
           Inr (case find (\<lambda>k. is_up h (rr_probe ?lb k)) [0..<n] of
                  None \<Rightarrow> (None, ?lb\<lparr>rr_idx := rr_idx ?lb + of_nat n\<rparr>)
                | Some k \<Rightarrow> (rr_probe ?lb k, ?lb\<lparr>rr_idx := rr_idx ?lb + of_nat k + 1\<rparr>))"
      using Suc.prems lt t1
      by (intro Suc.IH) (simp_all add: word_le_nat_alt word_less_nat_alt)
    moreover have e: "rr_idx lb + 1 + of_nat m = rr_idx lb + of_nat (Suc m)" for m
      by simp
    ultimately have ih: "rr_attempts h ?lb (tries + 1) =
           Inr (case find (\<lambda>k. is_up h (rr_probe lb (Suc k))) [0..<n] of
                  None \<Rightarrow> (None, lb\<lparr>rr_idx := rr_idx lb + of_nat (Suc n)\<rparr>)
                | Some k \<Rightarrow>
                    (rr_probe lb (Suc k), lb\<lparr>rr_idx := rr_idx lb + of_nat (Suc k) + 1\<rparr>))"
      by (simp add: e del: of_nat_Suc cong: option.case_cong)
    from False show ?thesis
      using Suc.prems(1) lt
      by (simp add: rr_step find_upt_Suc ih split: option.splits del: upt_Suc of_nat_Suc)
  qed
qed

lemma strat_rr_select_find:
  assumes "wf_core h lb"
  shows "strat_rr_select h lb client =
           Inr (if backend_count lb = 0 then (None, lb)
                else case find (\<lambda>k. is_up h (rr_probe lb k)) [0..<unat (backend_count lb)] of
                       None \<Rightarrow> (None, lb\<lparr>rr_idx := rr_idx lb + backend_count lb\<rparr>)
                     | Some k \<Rightarrow> (rr_probe lb k, lb\<lparr>rr_idx := rr_idx lb + of_nat k + 1\<rparr>))"
  using rr_attempts_find [OF assms, of 0 "unat (backend_count lb)"]
  by (simp add: strat_rr_select_def cong: option.case_cong)

text \<open>
  Claim C1. On a well-formed core, \<^verbatim>\<open>strat_rr_select\<close> never faults and
  \<^item> returns no candidate, the cursor untouched, when the count \<open>N\<close> is 0;
  \<^item> otherwise returns the slot of the first attempt \<open>k < N\<close> whose slot
    \<open>backends[(cursor + k) mod N]\<close> holds a backend that is UP, after \<open>k + 1\<close>
    fetch-and-increments of the cursor (at most \<open>N\<close>);
  \<^item> returns no candidate after \<open>N\<close> attempts, the cursor advanced by \<open>N\<close>, when no
    attempt finds one.
\<close>

theorem rr_select_first_up:
  assumes "wf_core h lb"
  shows "strat_rr_select h lb client =
           Inr (if backend_count lb = 0 then (None, lb)
                else case find (\<lambda>k. is_up h (rr_probe lb k)) [0..<unat (backend_count lb)] of
                       None \<Rightarrow> (None, lb\<lparr>rr_idx := rr_idx lb + backend_count lb\<rparr>)
                     | Some k \<Rightarrow> (rr_probe lb k, lb\<lparr>rr_idx := rr_idx lb + of_nat k + 1\<rparr>))"
  using assms by (rule strat_rr_select_find)

theorem rr_select_first_up_witness:
  "wf_core (example_heap [BACKEND_UP, BACKEND_DOWN, BACKEND_UP] [5, 2, 7])
     (example_core LB_ALGO_ROUNDROBIN 1) \<and>
   strat_rr_select (example_heap [BACKEND_UP, BACKEND_DOWN, BACKEND_UP] [5, 2, 7])
     (example_core LB_ALGO_ROUNDROBIN 1) None =
     Inr (Some 2, example_core LB_ALGO_ROUNDROBIN 3)"
proof -
  have wf: "wf_core (example_heap [BACKEND_UP, BACKEND_DOWN, BACKEND_UP] [5, 2, 7])
              (example_core LB_ALGO_ROUNDROBIN 1)"
    by simp
  show ?thesis
    using wf rr_select_first_up [OF wf, of None]
    by (simp add: rr_probe_def is_up_def upt_rec example_heap_sel) (simp add: example_core_def)
qed

subsection \<open>Round-robin fairness\<close>

lemma all_up_rr_idx [simp]: "all_up h (lb\<lparr>rr_idx := c\<rparr>) = all_up h lb"
  by (simp add: all_up_def)

lemma rr_select_all_up:
  assumes wf: "wf_core h lb" and up: "all_up h lb" and nz: "backend_count lb \<noteq> 0"
  shows "strat_rr_select h lb client = Inr (rr_probe lb 0, lb\<lparr>rr_idx := rr_idx lb + 1\<rparr>)"
proof -
  have "unat (rr_idx lb mod backend_count lb) < unat (backend_count lb)"
    using nz by (rule mod_slot)
  moreover from wf have "unat (backend_count lb) \<le> length (backends lb)"
    by (simp add: wf_core_def)
  ultimately have "is_up h (rr_probe lb 0)"
    using up by (simp add: all_up_def rr_probe_def list_all_length)
  moreover obtain m where "unat (backend_count lb) = Suc m"
    using nz by (cases "unat (backend_count lb)") (simp_all add: unat_eq_0)
  ultimately show ?thesis
    using nz by (simp add: strat_rr_select_find [OF wf] find_upt_Suc del: upt_Suc)
qed

lemma rr_selects_all_up:
  assumes "wf_core h lb" and "all_up h lb" and "backend_count lb \<noteq> 0"
  shows "rr_selects h lb n = Inr (map (rr_probe lb) [0..<n], lb\<lparr>rr_idx := rr_idx lb + of_nat n\<rparr>)"
  using assms
proof (induction n arbitrary: lb)
  case 0
  then show ?case by simp
next
  case (Suc n)
  let ?lb = "lb\<lparr>rr_idx := rr_idx lb + 1\<rparr>"
  have "rr_selects h ?lb n = Inr (map (rr_probe ?lb) [0..<n], ?lb\<lparr>rr_idx := rr_idx ?lb + of_nat n\<rparr>)"
    using Suc.prems by (intro Suc.IH) simp_all
  moreover have "[0..<Suc n] = 0 # map Suc [0..<n]"
    by (simp add: upt_conv_Cons map_Suc_upt del: upt_Suc)
  ultimately show ?case
    using Suc.prems by (simp add: rr_select_all_up add.assoc del: upt_Suc)
qed

lemma count_list_map_upt: "count_list (map f xs) y = length (filter (\<lambda>x. f x = y) xs)"
  by (induction xs) simp_all

lemma filter_eq_upt: "length (filter (\<lambda>i. i = j) [0..<n]) = (if j < n then 1 else 0)"
  by (induction n) auto

lemma filter_mod_block:
  assumes "j < N"
  shows "length (filter (\<lambda>i. i mod N = j) [k * N..<k * N + N]) = 1"
proof -
  have "[k * N..<k * N + N] = map (\<lambda>i. i + k * N) [0..<N]"
    by (simp add: map_add_upt add.commute)
  then have "length (filter (\<lambda>i. i mod N = j) [k * N..<k * N + N]) =
             length (filter (\<lambda>i. i mod N = j) [0..<N])"
    by (simp add: filter_map comp_def)
  also have "filter (\<lambda>i. i mod N = j) [0..<N] = filter (\<lambda>i. i = j) [0..<N]"
    by (rule filter_cong) simp_all
  finally show ?thesis
    using assms by (simp add: filter_eq_upt)
qed

lemma filter_mod_upt:
  assumes "j < N"
  shows "length (filter (\<lambda>i. i mod N = j) [0..<k * N]) = k"
proof (induction k)
  case 0
  then show ?case by simp
next
  case (Suc k)
  have "Suc k * N = k * N + N"
    by simp
  then have "[0..<Suc k * N] = [0..<k * N] @ [k * N..<k * N + N]"
    by (simp only: upt_add_eq_append [of 0 "k * N" N, simplified])
  with Suc filter_mod_block [OF assms, of k] show ?case
    by simp
qed

lemma rr_probe_zero:
  assumes "rr_idx lb = 0"
  shows "rr_probe lb i = backends lb ! (i mod 2 ^ 32 mod unat (backend_count lb))"
  using assms by (simp add: rr_probe_def unat_mod unat_of_nat)

text \<open>
  After a wrap at \<open>M\<close> that is not a multiple of \<open>N\<close>, index 0 has been visited more
  often than index \<open>N - 1\<close>: moving each visit of \<open>N - 1\<close> back by \<open>N - 1\<close> steps gives
  a visit of 0, and the last visit of 0 before the wrap is not reached this way.
\<close>

lemma wrap_unfair:
  fixes M N n :: nat
  assumes ndvd: "\<not> N dvd M" and n: "M \<le> n" and M: "0 < M" and N: "0 < N" and NM: "N \<le> M"
  shows "card {i. i < n \<and> i mod M mod N = N - 1} < card {i. i < n \<and> i mod M mod N = 0}"
proof -
  let ?A = "{i. i < n \<and> i mod M mod N = N - 1}"
  let ?B = "{i. i < n \<and> i mod M mod N = 0}"
  let ?f = "\<lambda>i. i - (N - 1)"
  from ndvd have r: "0 < M mod N"
    by (simp add: dvd_eq_mod_eq_0)
  have rN: "M mod N < N"
    using N by simp
  have low: "N - 1 \<le> i mod M" if "i \<in> ?A" for i
  proof -
    from that have "i mod M mod N = N - 1" by simp
    moreover have "i mod M mod N \<le> i mod M" by (rule mod_less_eq_dividend)
    ultimately show ?thesis by simp
  qed
  have low': "N - 1 \<le> i" if "i \<in> ?A" for i
    using low [OF that] mod_less_eq_dividend [of i M] by (rule order_trans)
  have img: "?f i \<in> ?B" if "i \<in> ?A" for i
  proof -
    let ?a = "i mod M"
    from that have a: "?a mod N = N - 1" and i: "i < n" by simp_all
    have aM: "?a < M" using M by simp
    have a_eq: "?a = N * (?a div N) + (N - 1)"
      using a mult_div_mod_eq [of N ?a] by simp
    have i_eq: "i = M * (i div M) + ?a"
      by simp
    have "?f i = M * (i div M) + (?a - (N - 1))"
      using low [OF that] by (subst i_eq) simp
    moreover have "?a - (N - 1) = N * (?a div N)"
      using a_eq by linarith
    ultimately have f_eq: "?f i = M * (i div M) + N * (?a div N)"
      by simp
    have "N * (?a div N) \<le> ?a"
      by simp
    from this aM have "N * (?a div N) < M"
      by (rule le_less_trans)
    then have "?f i mod M = N * (?a div N)"
      unfolding f_eq by simp
    then have "?f i mod M mod N = 0"
      by simp
    moreover have "?f i < n"
      using i by simp
    ultimately show ?thesis by simp
  qed
  have inj: "inj_on ?f ?A"
  proof (rule inj_onI)
    fix x y assume "x \<in> ?A" "y \<in> ?A" "x - (N - 1) = y - (N - 1)"
    with low' [of x] low' [of y] show "x = y"
      by simp
  qed
  let ?z = "M - M mod N"
  have zB: "?z \<in> ?B"
  proof -
    have "?z < M" using r M by simp
    moreover have "?z = N * (M div N)"
      using mult_div_mod_eq [of N M] by linarith
    ultimately show ?thesis
      using n by simp
  qed
  have z_out: "?z \<notin> ?f ` ?A"
  proof
    assume "?z \<in> ?f ` ?A"
    then obtain i where i: "i \<in> ?A" and z: "?z = i - (N - 1)"
      by auto
    from z low' [OF i] have "i = ?z + (N - 1)"
      by simp
    moreover have "M mod N \<le> M"
      by (rule mod_less_eq_dividend)
    ultimately have i_eq: "i = M + (N - 1 - M mod N)"
      using r rN by simp
    have "N - 1 - M mod N \<le> N - 1"
      by (rule diff_le_self)
    also have "N - 1 < N"
      using N by simp
    also note NM
    finally have "N - 1 - M mod N < M" .
    then have "i mod M = N - 1 - M mod N"
      unfolding i_eq by simp
    moreover have "N - 1 - M mod N < N - 1"
      using r rN by simp
    ultimately have "i mod M < N - 1"
      by simp
    with low [OF i] show False
      by simp
  qed
  have fin: "finite ?B"
    by simp
  have sub: "?f ` ?A \<subseteq> ?B"
    using img by (rule image_subsetI)
  have "?f ` ?A \<noteq> ?B"
  proof
    assume "?f ` ?A = ?B"
    with zB have "?z \<in> ?f ` ?A"
      by (simp only:)
    with z_out show False ..
  qed
  with sub have "?f ` ?A \<subset> ?B"
    by (rule psubsetI)
  then have "card (?f ` ?A) < card ?B"
    using fin by (intro psubset_card_mono)
  then show ?thesis
    unfolding card_image [OF inj] .
qed

lemma rr_count_fresh:
  assumes wf: "wf_core h lb" and up: "all_up h lb" and nz: "backend_count lb \<noteq> 0"
    and fresh: "rr_idx lb = 0"
    and d: "distinct (take (unat (backend_count lb)) (backends lb))"
    and j: "j < unat (backend_count lb)"
  shows "rr_count h lb n (backends lb ! j) =
           Inr (card {i. i < n \<and> i mod 4294967296 mod unat (backend_count lb) = j})"
proof -
  let ?N = "unat (backend_count lb)"
  have len: "?N \<le> length (backends lb)"
    using wf by (simp add: wf_core_def)
  have N: "0 < ?N"
    using j by simp
  have eq: "(rr_probe lb i = backends lb ! j) = (i mod 4294967296 mod ?N = j)" for i
  proof -
    let ?m = "i mod 4294967296 mod ?N"
    have "?m < ?N" using N by simp
    then have "(take ?N (backends lb) ! ?m = take ?N (backends lb) ! j) = (?m = j)"
      using d j len by (intro nth_eq_iff_index_eq) simp_all
    then show ?thesis
      using j N by (simp add: rr_probe_zero [OF fresh])
  qed
  show ?thesis
    by (simp add: rr_count_def rr_selects_all_up [OF wf up nz] count_list_map_upt eq
          length_filter_upt_card)
qed

lemma card_mod_upt:
  assumes "j < N"
  shows "card {i. i < k * N \<and> i mod N = j} = k"
  using filter_mod_upt [OF assms, of k] by (simp add: length_filter_upt_card)

text \<open>
  Claim C4, as amended. On a well-formed core with \<open>N > 0\<close> backends that are all UP and
  a cursor of 0 (no selection made since creation), the heap held constant:
  \<^item> \<open>n\<close> successive selections return the backends at the indices
    \<open>0 mod N, 1 mod N, \<dots>, (n - 1) mod N\<close>, in this order, and leave the cursor at \<open>n\<close>,
    whenever \<open>n\<close> is at most \<open>2 ^ 32\<close> or \<open>N\<close> divides \<open>2 ^ 32\<close>; for \<open>N = 3\<close> and
    \<open>n = 5\<close> these are the indices 0, 1, 2, 0, 1;
  \<^item> when the \<open>N\<close> slots hold different backends, \<open>k * N\<close> successive selections return
    each backend exactly \<open>k\<close> times if and only if \<open>k * N\<close> is at most \<open>2 ^ 32\<close> or \<open>N\<close>
    divides \<open>2 ^ 32\<close>: that is, as long as the 32-bit cursor has not wrapped, and for
    ever when its wrap is a multiple of \<open>N\<close>.
\<close>

theorem rr_fairness:
  assumes wf: "wf_core h lb" and up: "all_up h lb" and nz: "backend_count lb \<noteq> 0"
    and fresh: "rr_idx lb = 0"
  shows "(\<forall>n. n \<le> 2 ^ 32 \<or> unat (backend_count lb) dvd 2 ^ 32 \<longrightarrow>
            rr_selects h lb n =
              Inr (map (\<lambda>i. backends lb ! (i mod unat (backend_count lb))) [0..<n],
                   lb\<lparr>rr_idx := of_nat n\<rparr>)) \<and>
         (distinct (take (unat (backend_count lb)) (backends lb)) \<longrightarrow>
            (\<forall>k. (\<forall>j<unat (backend_count lb).
                     rr_count h lb (k * unat (backend_count lb)) (backends lb ! j) = Inr k) =
                  (k * unat (backend_count lb) \<le> 2 ^ 32 \<or>
                   unat (backend_count lb) dvd 2 ^ 32)))"
proof -
  let ?N = "unat (backend_count lb)"
  let ?M = "4294967296 :: nat"
  have M: "(2::nat) ^ 32 = ?M"
    by simp
  have N: "0 < ?N"
    using nz by (simp add: unat_gt_0)
  have NM: "?N \<le> ?M"
    using unsigned_less [of "backend_count lb", where 'a = nat] by simp
  have idx: "i mod ?M mod ?N = i mod ?N" if "i < n" and "n \<le> ?M \<or> ?N dvd ?M" for i n
  proof (cases "?N dvd ?M")
    case True
    then show ?thesis by (rule mod_mod_cancel)
  next
    case False
    with that have "i < ?M" by simp
    then show ?thesis by simp
  qed
  have order: "rr_selects h lb n =
              Inr (map (\<lambda>i. backends lb ! (i mod ?N)) [0..<n], lb\<lparr>rr_idx := of_nat n\<rparr>)"
    if c: "n \<le> ?M \<or> ?N dvd ?M" for n
  proof -
    have "map (rr_probe lb) [0..<n] = map (\<lambda>i. backends lb ! (i mod ?N)) [0..<n]"
    proof (rule map_cong [OF refl])
      fix i assume "i \<in> set [0..<n]"
      then have "i < n" by simp
      from idx [OF this c] show "rr_probe lb i = backends lb ! (i mod ?N)"
        by (simp only: rr_probe_zero [OF fresh] M)
    qed
    then show ?thesis
      using rr_selects_all_up [OF wf up nz, of n] fresh by simp
  qed
  have fair: "(\<forall>j<?N. rr_count h lb (k * ?N) (backends lb ! j) = Inr k) =
                (k * ?N \<le> ?M \<or> ?N dvd ?M)"
    if d: "distinct (take ?N (backends lb))" for k
  proof
    assume c: "k * ?N \<le> ?M \<or> ?N dvd ?M"
    show "\<forall>j<?N. rr_count h lb (k * ?N) (backends lb ! j) = Inr k"
    proof (intro allI impI)
      fix j assume j: "j < ?N"
      have "{i. i < k * ?N \<and> i mod ?M mod ?N = j} = {i. i < k * ?N \<and> i mod ?N = j}"
        using idx [OF _ c] by auto
      then show "rr_count h lb (k * ?N) (backends lb ! j) = Inr k"
        by (simp only: rr_count_fresh [OF wf up nz fresh d j] card_mod_upt [OF j])
    qed
  next
    assume all: "\<forall>j<?N. rr_count h lb (k * ?N) (backends lb ! j) = Inr k"
    show "k * ?N \<le> ?M \<or> ?N dvd ?M"
    proof (rule ccontr)
      assume "\<not> (k * ?N \<le> ?M \<or> ?N dvd ?M)"
      then have big: "?M \<le> k * ?N" and ndvd: "\<not> ?N dvd ?M"
        by simp_all
      have "card {i. i < k * ?N \<and> i mod ?M mod ?N = ?N - 1}
              < card {i. i < k * ?N \<and> i mod ?M mod ?N = 0}"
        using ndvd big _ N NM by (rule wrap_unfair) simp
      moreover from all N have "rr_count h lb (k * ?N) (backends lb ! 0) = Inr k"
        by simp
      then have "card {i. i < k * ?N \<and> i mod ?M mod ?N = 0} = k"
        by (simp only: rr_count_fresh [OF wf up nz fresh d N] sum.inject)
      moreover have last: "?N - 1 < ?N"
        using N by simp
      with all have "rr_count h lb (k * ?N) (backends lb ! (?N - 1)) = Inr k"
        by simp
      then have "card {i. i < k * ?N \<and> i mod ?M mod ?N = ?N - 1} = k"
        by (simp only: rr_count_fresh [OF wf up nz fresh d last] sum.inject)
      ultimately show False
        by simp
    qed
  qed
  from order fair show ?thesis
    unfolding M by blast
qed

theorem rr_fairness_witness:
  "wf_core (example_heap [BACKEND_UP, BACKEND_UP, BACKEND_UP] [0, 0, 0])
     (example_core LB_ALGO_ROUNDROBIN 0) \<and>
   all_up (example_heap [BACKEND_UP, BACKEND_UP, BACKEND_UP] [0, 0, 0])
     (example_core LB_ALGO_ROUNDROBIN 0) \<and>
   rr_selects (example_heap [BACKEND_UP, BACKEND_UP, BACKEND_UP] [0, 0, 0])
     (example_core LB_ALGO_ROUNDROBIN 0) 5 =
     Inr ([Some 0, Some 1, Some 2, Some 0, Some 1], example_core LB_ALGO_ROUNDROBIN 5) \<and>
   rr_count (example_heap [BACKEND_UP, BACKEND_UP, BACKEND_UP] [0, 0, 0])
     (example_core LB_ALGO_ROUNDROBIN 0) (2 * 3) (Some 1) = Inr 2"
proof -
  let ?h = "example_heap [BACKEND_UP, BACKEND_UP, BACKEND_UP] [0, 0, 0]"
  let ?lb = "example_core LB_ALGO_ROUNDROBIN 0"
  have wf: "wf_core ?h ?lb" and up: "all_up ?h ?lb"
    and nz: "backend_count ?lb \<noteq> 0" and fresh: "rr_idx ?lb = 0"
    by simp_all
  note t = rr_fairness [OF wf up nz fresh]
  have "rr_selects ?h ?lb 5 = Inr ([Some 0, Some 1, Some 2, Some 0, Some 1], example_core LB_ALGO_ROUNDROBIN 5)"
    using t [THEN conjunct1, rule_format, of 5]
    by (simp add: upt_rec) (simp add: example_core_def)
  moreover have "\<forall>j<unat (backend_count ?lb).
      rr_count ?h ?lb (2 * unat (backend_count ?lb)) (backends ?lb ! j) = Inr 2"
    using t [THEN conjunct2, rule_format, of 2] by simp
  then have "rr_count ?h ?lb (2 * 3) (Some 1) = Inr 2"
    by (simp add: less_3)
  ultimately show ?thesis
    using wf up by simp
qed

lemma example_probe:
  "(rr_probe (example_core algo 0) i = Some 0) = (i mod 4294967296 mod 3 = 0)"
proof -
  let ?m = "i mod 4294967296 mod 3"
  have "rr_probe (example_core algo 0) i = (Some 0 # Some 1 # Some 2 # replicate 253 None) ! ?m"
    by (simp add: rr_probe_def unat_mod unat_of_nat)
  moreover have "?m = 0 \<or> ?m = 1 \<or> ?m = 2"
    by linarith
  ultimately show ?thesis
    by auto
qed

text \<open>
  The claim as stated fails once the cursor has wrapped. With \<open>N = 3\<close> backends and
  \<open>k = 1431655766\<close>, that is \<open>k * N = 2 ^ 32 + 2\<close> selections, the backend at index 0 is
  returned \<open>k + 1\<close> times: the cursors \<open>2 ^ 32 - 1\<close> and 0 follow each other and both
  select index 0.
\<close>

theorem rr_wrap_counterexample:
  "rr_count (example_heap [BACKEND_UP, BACKEND_UP, BACKEND_UP] [0, 0, 0])
     (example_core LB_ALGO_ROUNDROBIN 0) (1431655766 * 3) (Some 0) = Inr 1431655767 \<and>
   rr_count (example_heap [BACKEND_UP, BACKEND_UP, BACKEND_UP] [0, 0, 0])
     (example_core LB_ALGO_ROUNDROBIN 0) (1431655766 * 3) (Some 0) \<noteq> Inr 1431655766"
proof -
  let ?h = "example_heap [BACKEND_UP, BACKEND_UP, BACKEND_UP] [0, 0, 0]"
  let ?lb = "example_core LB_ALGO_ROUNDROBIN 0"
  have sel: "rr_selects ?h ?lb n = Inr (map (rr_probe ?lb) [0..<n], ?lb\<lparr>rr_idx := rr_idx ?lb + of_nat n\<rparr>)" for n
    by (rule rr_selects_all_up) simp_all
  have cnt: "rr_count ?h ?lb n (Some 0) = Inr (length (filter (\<lambda>i. i mod 4294967296 mod 3 = 0) [0..<n]))" for n
    unfolding rr_count_def sel by (simp add: count_list_map_upt example_probe)
  have split: "[0..<4294967298] = [0..<4294967295] @ [4294967295, 4294967296, 4294967297]"
    using upt_add_eq_append [of 0 4294967295 3] by simp
  have "filter (\<lambda>i. i mod 4294967296 mod 3 = 0) [0..<4294967295] =
        filter (\<lambda>i. i mod 3 = 0) [0..<4294967295]"
    by (rule filter_cong) simp_all
  moreover have "length (filter (\<lambda>i. i mod 3 = 0) [0..<4294967295]) = 1431655765"
    using filter_mod_upt [of 0 3 1431655765] by simp
  ultimately have "length (filter (\<lambda>i. i mod 4294967296 mod 3 = 0) [0..<4294967298]) = 1431655767"
    unfolding split by simp
  then show ?thesis
    by (simp add: cnt)
qed

subsection \<open>Adding backends\<close>

lemma created_backend_host:
  "host (created_backend s port_a weight_a) =
     take 255 (c_str s) @ replicate (256 - length (take 255 (c_str s))) NUL"
proof -
  let ?n = "length (take 255 (c_str s))"
  have "?n \<le> 255" by simp
  then have "replicate (255 - ?n) NUL @ [NUL] = replicate (256 - ?n) NUL"
    by (simp add: replicate_append_same Suc_diff_le flip: replicate_Suc)
  then show ?thesis
    by (simp add: created_backend_def calloc_backend_def strncpy_def HOST_SIZE_def Let_def)
qed

lemma add_backend_ok:
  assumes "port_a \<noteq> 0" and "unat (backend_count c) < MAX_BACKENDS"
  shows "lb_core_add_backend True h (Some c) (Some s) port_a weight_a =
           (LB_OK, h @ [created_backend s port_a weight_a],
            Some (c\<lparr>backends := (backends c)[unat (backend_count c) := Some (length h)],
                    backend_count := backend_count c + 1\<rparr>))"
  using assms
  by (simp add: lb_core_add_backend_def Let_def created_backend_def)

lemma add_backend_cases:
  "lb_core_add_backend ok h lb host_a port_a weight_a =
     (if lb = None \<or> host_a = None \<or> port_a = 0 then (LB_ERR_INVAL, h, lb)
      else if MAX_BACKENDS \<le> unat (backend_count (the lb)) then (LB_ERR_LIMIT, h, lb)
      else if \<not> ok then (LB_ERR_NOMEM, h, lb)
      else (LB_OK, h @ [created_backend (the host_a) port_a weight_a],
            Some ((the lb)\<lparr>backends := (backends (the lb))[unat (backend_count (the lb)) := Some (length h)],
                    backend_count := backend_count (the lb) + 1\<rparr>)))"
proof (cases lb)
  case None
  then show ?thesis by (simp add: lb_core_add_backend_def)
next
  case c: (Some c)
  show ?thesis
  proof (cases host_a)
    case None
    with c show ?thesis by (simp add: lb_core_add_backend_def)
  next
    case (Some s)
    with c add_backend_ok [of port_a c h s weight_a] show ?thesis
      by (cases ok) (auto simp: lb_core_add_backend_def)
  qed
qed

text \<open>
  Claim C3, as amended. \<^verbatim>\<open>lb_core_add_backend\<close> returns \<open>LB_ERR_INVAL\<close> whenever the core
  or the host argument is null, or the port argument is 0; the heap and the core are then
  as before the call: the registry is unchanged and no backend is constructed. (A host
  that is the empty string is not null, and is not rejected.)
\<close>

theorem add_backend_invalid:
  assumes "lb = None \<or> host_a = None \<or> port_a = 0"
  shows "lb_core_add_backend ok h lb host_a port_a weight_a = (LB_ERR_INVAL, h, lb)"
  using assms by (simp add: add_backend_cases)

theorem add_backend_invalid_witness:
  "lb_core_add_backend True [] (Some fresh_core) None 80 1 =
     (LB_ERR_INVAL, [], Some fresh_core) \<and>
   lb_core_add_backend True [] (Some fresh_core) (Some ''10.0.0.1'') 0 1 =
     (LB_ERR_INVAL, [], Some fresh_core)"
  using add_backend_invalid [of "Some fresh_core" None 80 True "[]" 1]
    add_backend_invalid [of "Some fresh_core" "Some ''10.0.0.1''" 0 True "[]" 1]
  by simp

text \<open>
  The claim as stated fails for the empty string: with a port of 80 the call returns
  \<open>LB_OK\<close> and constructs a backend whose host is empty.
\<close>

theorem add_backend_empty_host_counterexample:
  "lb_core_add_backend True [] (Some fresh_core) (Some '''') 80 1 \<noteq>
     (LB_ERR_INVAL, [], Some fresh_core) \<and>
   fst (lb_core_add_backend True [] (Some fresh_core) (Some '''') 80 1) = LB_OK \<and>
   fst (snd (lb_core_add_backend True [] (Some fresh_core) (Some '''') 80 1)) =
     [created_backend '''' 80 1]"
  by (simp add: add_backend_cases MAX_BACKENDS_def)

text \<open>
  Claim C5. When the count equals \<open>MAX_BACKENDS\<close> (256), a call of \<^verbatim>\<open>lb_core_add_backend\<close>
  leaves the core and the heap as they were, whether or not memory is available: the
  count keeps its value, no slot is written and no backend is allocated. Its status is
  \<open>LB_ERR_LIMIT\<close> for every call whose arguments pass the check before (a non-null host
  and a port other than 0), and \<open>LB_ERR_INVAL\<close> for the others.
\<close>

theorem add_backend_limit:
  assumes "unat (backend_count c) = MAX_BACKENDS"
  shows "lb_core_add_backend ok h (Some c) host_a port_a weight_a =
           (if host_a = None \<or> port_a = 0 then LB_ERR_INVAL else LB_ERR_LIMIT, h, Some c)"
  using assms by (simp add: add_backend_cases)

theorem add_backend_limit_witness:
  "unat (backend_count full_core) = MAX_BACKENDS \<and>
   lb_core_add_backend True (replicate 256 (created_backend ''10.0.0.1'' 80 1)) (Some full_core)
     (Some ''10.0.0.1'') 80 1 =
     (LB_ERR_LIMIT, replicate 256 (created_backend ''10.0.0.1'' 80 1), Some full_core)"
proof -
  have full: "unat (backend_count full_core) = MAX_BACKENDS"
    by (simp add: full_core_def MAX_BACKENDS_def)
  show ?thesis
    using full add_backend_limit [OF full, of True _ "Some ''10.0.0.1''" 80 1] by simp
qed

text \<open>
  Claim C8. A call of \<^verbatim>\<open>lb_core_add_backend\<close> that returns \<open>LB_OK\<close> appends one backend to
  the heap; its weight is 1 when the weight argument is 0 and the weight argument
  otherwise, hence at least 1 in every case. If every backend had a weight of at least 1
  before the call, every backend has one after it.
\<close>

theorem add_backend_weight:
  assumes "lb_core_add_backend ok h lb host_a port_a weight_a = (LB_OK, h', lb')"
  shows "length h' = Suc (length h) \<and> take (length h) h' = h \<and>
         weight (h' ! length h) = (if weight_a = 0 then 1 else weight_a) \<and>
         1 \<le> weight (h' ! length h) \<and>
         (list_all (\<lambda>b. 1 \<le> weight b) h \<longrightarrow> list_all (\<lambda>b. 1 \<le> weight b) h')"
proof -
  let ?w = "if weight_a = 0 then 1 else weight_a"
  have "unat ?w \<noteq> 0"
    by (simp add: unat_eq_0)
  then have w: "1 \<le> ?w"
    by (simp add: word_le_nat_alt)
  from assms have h': "h' = h @ [created_backend (the host_a) port_a weight_a]"
    by (simp add: add_backend_cases split: if_splits)
  have "weight (created_backend (the host_a) port_a weight_a) = ?w"
    by (simp add: created_backend_def)
  with w show ?thesis
    unfolding h' by simp
qed

theorem add_backend_weight_witness:
  "fst (lb_core_add_backend True [] (Some fresh_core) (Some ''10.0.0.1'') 80 0) = LB_OK \<and>
   weight (fst (snd (lb_core_add_backend True [] (Some fresh_core) (Some ''10.0.0.1'') 80 0)) ! 0) = 1"
proof -
  let ?r = "lb_core_add_backend True [] (Some fresh_core) (Some ''10.0.0.1'') 80 0"
  have ok: "fst ?r = LB_OK"
    by (simp add: add_backend_cases MAX_BACKENDS_def)
  then have "?r = (LB_OK, fst (snd ?r), snd (snd ?r))"
    by (metis prod.collapse)
  from add_backend_weight [OF this] ok show ?thesis
    by simp
qed

lemma c_str_padded:
  assumes "\<forall>x \<in> set xs. x \<noteq> NUL"
  shows "c_str (xs @ replicate n NUL) = xs"
  using assms by (cases n) (simp_all add: c_str_def takeWhile_append2)

lemma c_str_no_NUL: "x \<in> set (c_str s) \<Longrightarrow> x \<noteq> NUL"
  by (auto simp: c_str_def dest: set_takeWhileD)

text \<open>
  Claim C9. For every non-null host, when the call is otherwise valid (non-null core, port
  other than 0), the registry is not full and the allocation succeeds,
  \<^verbatim>\<open>lb_core_add_backend\<close> returns \<open>LB_OK\<close>; the host array of the new backend has
  \<open>HOST_SIZE\<close> = 256 bytes, its last byte is NUL, and the string it holds is the first 255
  bytes of the host argument: a longer host is truncated, not rejected.
\<close>

theorem add_backend_truncates_host:
  assumes "port_a \<noteq> 0" and "unat (backend_count c) < MAX_BACKENDS"
  shows "(case lb_core_add_backend True h (Some c) (Some s) port_a weight_a of
            (st, h', lb') \<Rightarrow>
              st = LB_OK \<and> length h' = Suc (length h) \<and>
              length (host (h' ! length h)) = HOST_SIZE \<and>
              host (h' ! length h) ! (HOST_SIZE - 1) = NUL \<and>
              c_str (host (h' ! length h)) = take (HOST_SIZE - 1) (c_str s) \<and>
              length (c_str (host (h' ! length h))) \<le> HOST_SIZE - 1)"
proof -
  let ?t = "take 255 (c_str s)"
  have "\<forall>x \<in> set ?t. x \<noteq> NUL"
    by (auto dest: in_set_takeD c_str_no_NUL)
  then have "c_str (?t @ replicate (256 - length ?t) NUL) = ?t"
    by (rule c_str_padded)
  moreover have "(?t @ replicate (256 - length ?t) NUL) ! 255 = NUL"
    by (simp add: nth_append)
  ultimately show ?thesis
    using assms by (simp add: add_backend_ok created_backend_host HOST_SIZE_def)
qed

theorem add_backend_truncates_host_witness:
  "(80 :: u16) \<noteq> 0 \<and> unat (backend_count fresh_core) < MAX_BACKENDS \<and>
   fst (lb_core_add_backend True [] (Some fresh_core) (Some (replicate 300 CHR ''a'')) 80 1) = LB_OK \<and>
   c_str (host (fst (snd (lb_core_add_backend True [] (Some fresh_core)
      (Some (replicate 300 CHR ''a'')) 80 1)) ! 0)) = replicate 255 CHR ''a''"
proof -
  have p: "(80 :: u16) \<noteq> 0" by simp
  have n: "unat (backend_count fresh_core) < MAX_BACKENDS"
    by (simp add: MAX_BACKENDS_def)
  have "c_str (replicate 300 CHR ''a'') = replicate 300 CHR ''a''"
    by (simp add: c_str_def NUL_def takeWhile_eq_all_conv)
  with add_backend_truncates_host [OF p n, of "[]" "replicate 300 CHR ''a''" 1] p n show ?thesis
    by (simp add: HOST_SIZE_def split: prod.splits)
qed

subsection \<open>The registry after a sequence of calls\<close>

lemma take_Suc_update:
  "n < length xs \<Longrightarrow> take (Suc n) (xs[n := x]) = take n xs @ [x]"
  by (simp add: take_Suc_conv_app_nth)

lemma created_by_skip:
  "st \<noteq> LB_OK \<Longrightarrow> created_by (call # calls) (st # ss) = created_by calls ss"
  by (cases "(call # calls, st # ss)" rule: created_by.cases) simp_all

lemma add_backends_registry_aux:
  assumes "length (backends c) = MAX_BACKENDS" and "add_backends h (Some c) calls = (ss, h', lb')"
  shows "registry_after h c calls ss h' lb'"
  using assms
proof (induction calls arbitrary: h c ss h' lb')
  case Nil
  then show ?case by (auto simp: registry_after_def)
next
  case (Cons call calls)
  obtain ok host_a port_a weight_a where call: "call = (ok, host_a, port_a, weight_a)"
    by (cases call)
  obtain s h1 lb1 where step: "lb_core_add_backend ok h (Some c) host_a port_a weight_a = (s, h1, lb1)"
    by (cases "lb_core_add_backend ok h (Some c) host_a port_a weight_a")
  obtain ss1 where rest: "add_backends h1 lb1 calls = (ss1, h', lb')" and ss: "ss = s # ss1"
    using Cons.prems(2) call step by (auto split: prod.splits)
  show ?case
  proof (cases "s = LB_OK")
    case False
    with step have same: "h1 = h" "lb1 = Some c"
      by (auto simp: add_backend_cases split: if_splits)
    have "registry_after h c calls ss1 h' lb'"
      using Cons.prems(1) rest unfolding same by (rule Cons.IH)
    with False show ?thesis
      by (auto simp: registry_after_def created_by_skip ss split: option.splits)
  next
    case True
    let ?n = "unat (backend_count c)"
    let ?c1 = "c\<lparr>backends := (backends c)[?n := Some (length h)],
                  backend_count := backend_count c + 1\<rparr>"
    from True step obtain host_s where host_a: "host_a = Some host_s"
      by (cases host_a) (auto simp: add_backend_cases split: if_splits)
    from True step have n: "?n < MAX_BACKENDS"
      and h1: "h1 = h @ [created_backend host_s port_a weight_a]" and lb1: "lb1 = Some ?c1"
      by (auto simp: add_backend_cases host_a split: if_splits)
    have "backend_count c < 256"
      using n by (simp add: word_less_nat_alt MAX_BACKENDS_def)
    then have suc: "unat (backend_count c + 1) = Suc ?n"
      by (rule u32_succ)
    have "length (backends ?c1) = MAX_BACKENDS"
      using Cons.prems(1) by simp
    then have ih: "registry_after h1 ?c1 calls ss1 h' lb'"
      using rest unfolding lb1 by (rule Cons.IH)
    then obtain c' where c': "lb' = Some c'"
      by (cases lb') (simp_all add: registry_after_def)
    have sel: "backend_count ?c1 = backend_count c + 1"
      "backends ?c1 = (backends c)[?n := Some (length h)]"
      by simp_all
    from ih have ih': "length ss1 = length calls \<and>
          unat (backend_count c') = unat (backend_count ?c1) + count_list ss1 LB_OK \<and>
          h' = h1 @ created_by calls ss1 \<and>
          take (unat (backend_count c')) (backends c') =
            take (unat (backend_count ?c1)) (backends ?c1) @ map Some [length h1..<length h'] \<and>
          length (backends c') = length (backends ?c1)"
      unfolding registry_after_def c' option.case .
    from ih' have a: "length ss1 = length calls"
      by (rule conjunct1)
    from ih' have b: "unat (backend_count c') = Suc ?n + count_list ss1 LB_OK"
      unfolding sel suc by (elim conjE)
    from ih' have c: "h' = h1 @ created_by calls ss1"
      by (elim conjE)
    from ih' have d: "take (unat (backend_count c')) (backends c') =
                take (Suc ?n) ((backends c)[?n := Some (length h)]) @
                map Some [length h1..<length h']"
      unfolding sel suc by (elim conjE)
    from ih' have e: "length (backends c') = length (backends c)"
      unfolding sel by (elim conjE) simp
    have "length h < length h'" and "length h1 = Suc (length h)"
      by (simp_all add: c h1)
    then have upt: "[length h..<length h'] = length h # [length h1..<length h']"
      by (simp add: upt_conv_Cons)
    have "take (Suc ?n) ((backends c)[?n := Some (length h)]) =
            take ?n (backends c) @ [Some (length h)]"
      using n Cons.prems(1) by (intro take_Suc_update) simp
    with d have d': "take (unat (backend_count c')) (backends c') =
                       take ?n (backends c) @ map Some [length h..<length h']"
      by (simp only: upt) simp
    have c'': "h' = h @ created_by (call # calls) ss"
      using True by (simp add: c h1 call ss host_a)
    show ?thesis
      using a b c'' d' e True by (simp add: registry_after_def c' ss)
  qed
qed

text \<open>
  Claim C7. After any sequence of calls of \<^verbatim>\<open>lb_core_add_backend\<close> on a core (whose array
  has its \<open>MAX_BACKENDS\<close> slots), the count is the count before plus the number of calls
  that returned \<open>LB_OK\<close> (that number, on a fresh core); the heap has grown by exactly
  the backends those calls constructed, in call order; and the slots below the count are
  the slots below the old count, unmoved, followed by the addresses of the new backends
  in call order.
\<close>

theorem add_backends_registry:
  assumes "length (backends c) = MAX_BACKENDS"
    and "add_backends h (Some c) calls = (ss, h', lb')"
  shows "\<exists>c'. lb' = Some c' \<and>
           length ss = length calls \<and>
           unat (backend_count c') = unat (backend_count c) + count_list ss LB_OK \<and>
           h' = h @ created_by calls ss \<and>
           take (unat (backend_count c')) (backends c') =
             take (unat (backend_count c)) (backends c) @ map Some [length h..<length h'] \<and>
           length (backends c') = length (backends c)"
proof -
  note r = add_backends_registry_aux [OF assms, unfolded registry_after_def]
  show ?thesis
  proof (cases lb')
    case None
    with r show ?thesis by simp
  next
    case (Some c')
    from r [unfolded Some option.case] Some show ?thesis
      by blast
  qed
qed

lemma example_run:
  "add_backends [] (Some fresh_core) example_calls =
     ([LB_OK, LB_ERR_INVAL, LB_ERR_NOMEM, LB_OK],
      [created_backend ''10.0.0.1'' 80 1, created_backend ''10.0.0.4'' 80 0],
      Some (fresh_core\<lparr>backends := Some 0 # Some 1 # None # replicate 253 None,
                         backend_count := 2\<rparr>))"
  by (simp add: example_calls_def add_backend_cases MAX_BACKENDS_def replicate_256)

text \<open>The example registry is the one that three calls leave on a created core.\<close>

lemma example_core_reached:
  "add_backends [] (Some (created_core example_env 8080 algo)) three_calls =
     ([LB_OK, LB_OK, LB_OK],
      [created_backend ''10.0.0.1'' 80 1, created_backend ''10.0.0.2'' 80 1,
       created_backend ''10.0.0.3'' 80 1],
      Some (example_core algo 0))"
  by (simp add: three_calls_def add_backend_cases MAX_BACKENDS_def replicate_256 example_core_def)

theorem add_backends_registry_witness:
  "length (backends fresh_core) = MAX_BACKENDS \<and>
   add_backends [] (Some fresh_core) example_calls =
     ([LB_OK, LB_ERR_INVAL, LB_ERR_NOMEM, LB_OK],
      [created_backend ''10.0.0.1'' 80 1, created_backend ''10.0.0.4'' 80 0],
      Some (fresh_core\<lparr>backends := Some 0 # Some 1 # None # replicate 253 None,
                             backend_count := 2\<rparr>)) \<and>
   created_by example_calls [LB_OK, LB_ERR_INVAL, LB_ERR_NOMEM, LB_OK] =
     [created_backend ''10.0.0.1'' 80 1, created_backend ''10.0.0.4'' 80 0] \<and>
   take 2 (Some 0 # Some 1 # None # replicate 253 None) = [Some 0, Some 1]"
proof -
  have len: "length (backends fresh_core) = MAX_BACKENDS"
    by simp
  from add_backends_registry [OF len example_run] len example_run show ?thesis
    by simp
qed

subsection \<open>Cores that creation and registration produce\<close>

text \<open>
  The hypotheses of the selection theorems hold of every core the functions produce: the
  core that \<^verbatim>\<open>lb_core_create\<close> returns is well-formed, \<^verbatim>\<open>lb_core_add_backend\<close> keeps a core
  well-formed and does not touch the cursor, a change of the state or of the counters of
  the backends keeps it well-formed, and the slots filled on a created core hold different
  addresses.
\<close>

lemma wf_core_created: "wf_core [] (created_core env port_a algo)"
  by (simp add: wf_core_def)

lemma valid_ptr_mono: "valid_ptr h p \<Longrightarrow> length h \<le> length h' \<Longrightarrow> valid_ptr h' p"
  by (cases p) (simp_all add: valid_ptr_def)

lemma wf_core_heap:
  assumes "wf_core h lb" and "length h' = length h"
  shows "wf_core h' lb"
  using assms by (auto simp: wf_core_def list_all_iff intro: valid_ptr_mono)

lemma wf_core_add_backend:
  assumes wf: "wf_core h c"
    and step: "lb_core_add_backend ok h (Some c) host_a port_a weight_a = (s, h', lb')"
  shows "\<exists>c'. lb' = Some c' \<and> wf_core h' c' \<and> rr_idx c' = rr_idx c"
proof (cases "s = LB_OK")
  case False
  with step have "h' = h" "lb' = Some c"
    by (auto simp: add_backend_cases split: if_splits)
  with wf show ?thesis by simp
next
  case True
  let ?n = "unat (backend_count c)"
  let ?c1 = "c\<lparr>backends := (backends c)[?n := Some (length h)],
                backend_count := backend_count c + 1\<rparr>"
  from True step obtain obj where n: "?n < MAX_BACKENDS" and h': "h' = h @ [obj]"
    and lb': "lb' = Some ?c1"
    by (auto simp: add_backend_cases split: if_splits)
  from wf have len: "length (backends c) = MAX_BACKENDS"
    and old: "list_all (valid_ptr h) (take ?n (backends c))"
    by (simp_all add: wf_core_def)
  have "backend_count c < 256"
    using n by (simp add: word_less_nat_alt MAX_BACKENDS_def)
  then have suc: "unat (backend_count c + 1) = Suc ?n"
    by (rule u32_succ)
  have "take (Suc ?n) ((backends c)[?n := Some (length h)]) = take ?n (backends c) @ [Some (length h)]"
    using n len by (intro take_Suc_update) simp
  moreover have "list_all (valid_ptr h') (take ?n (backends c))"
    using old by (auto simp: list_all_iff h' intro: valid_ptr_mono)
  moreover have "valid_ptr h' (Some (length h))"
    by (simp add: valid_ptr_def h')
  ultimately have "wf_core h' ?c1"
    using n len by (simp add: wf_core_def suc)
  with lb' show ?thesis by simp
qed

lemma wf_core_add_backends:
  assumes "wf_core h c" and "add_backends h (Some c) calls = (ss, h', lb')"
  shows "\<exists>c'. lb' = Some c' \<and> wf_core h' c' \<and> rr_idx c' = rr_idx c"
  using assms
proof (induction calls arbitrary: h c ss h' lb')
  case Nil
  then show ?case by auto
next
  case (Cons call calls)
  obtain ok host_a port_a weight_a where call: "call = (ok, host_a, port_a, weight_a)"
    by (cases call)
  obtain s h1 lb1 where step: "lb_core_add_backend ok h (Some c) host_a port_a weight_a = (s, h1, lb1)"
    by (cases "lb_core_add_backend ok h (Some c) host_a port_a weight_a")
  from wf_core_add_backend [OF Cons.prems(1) step] obtain c1
    where c1: "lb1 = Some c1" "wf_core h1 c1" "rr_idx c1 = rr_idx c"
    by auto
  from Cons.prems(2) call step c1 obtain ss1 where "add_backends h1 (Some c1) calls = (ss1, h', lb')"
    by (auto split: prod.splits)
  from Cons.IH [OF c1(2) this] c1(3) show ?case
    by auto
qed

lemma created_slots_distinct:
  assumes "add_backends [] (Some (created_core env port_a algo)) calls = (ss, h', Some c')"
  shows "distinct (take (unat (backend_count c')) (backends c'))"
proof -
  have "length (backends (created_core env port_a algo)) = MAX_BACKENDS"
    and zero: "unat (backend_count (created_core env port_a algo)) = 0"
    by simp_all
  from add_backends_registry_aux [OF this(1) assms, unfolded registry_after_def option.case zero]
  have "take (unat (backend_count c')) (backends c') = take 0 (backends (created_core env port_a algo)) @ map Some [length ([] :: heap)..<length h']"
    by blast
  then have "take (unat (backend_count c')) (backends c') = map Some [0..<length h']"
    by simp
  then show ?thesis
    by (simp add: distinct_map)
qed

subsection \<open>Creation and the strategy factory\<close>

lemma init_from_algo [simp]: "init (lb_strategy_from_algo algo) = Some Strat_leastconn_init"
  by (cases algo) (simp_all add: STRAT_LEASTCONN_def STRAT_RR_def)

lemma call_init_ok [simp]: "call_init f lb = LB_OK"
  by (cases f) (simp add: strat_leastconn_init_def)

lemma create_failures:
  "\<not> out \<Longrightarrow> lb_core_create env port_a algo out = (LB_ERR_INVAL, None, [])"
  "out \<Longrightarrow> \<not> calloc_core env \<Longrightarrow>
     lb_core_create env port_a algo out = (LB_ERR_NOMEM, None, [Calloc_core])"
  "out \<Longrightarrow> calloc_core env \<Longrightarrow> epoll_create1 env < 0 \<Longrightarrow>
     lb_core_create env port_a algo out =
       (LB_ERR_SYS, None, [Calloc_core, Epoll_create1, Free_core])"
  by (simp_all add: lb_core_create_def)

lemma create_success:
  assumes "out" and "calloc_core env" and "0 \<le> epoll_create1 env"
  shows "lb_core_create env port_a algo out =
           (LB_OK, Some (created_core env port_a algo),
            [Calloc_core, Epoll_create1, Spin_init_backends_lock, Mmap] @
            (if mmap env = None
             then [Log LB_LOG_WARN ''core'' ''Memory pool disabled: mmap failed'' []] else []) @
            [Sysconf, Thread_pool_start] @
            (if (word_of_int (if sysconf_cpu env > 0 then sysconf_cpu env else 1) :: u32) = 0
             then [Log LB_LOG_WARN ''core'' ''Thread-pool not started: %s'' [Arg_str ''INVAL'']]
             else if \<not> calloc_threads env
             then [Log LB_LOG_WARN ''core'' ''Thread-pool not started: %s'' [Arg_str ''NOMEM'']]
             else []) @
            [Log LB_LOG_INFO ''core'' ''lb_core created on port %u with strategy %s''
               [Arg_uint (unat port_a), Arg_str (name (lb_strategy_from_algo algo))]])"
  using assms
  by (simp add: lb_core_create_def created_core_def lb_thread_pool_start_def Let_def
        calloc_lb_core_def MAX_CONNECTIONS_def)

text \<open>
  Claim C10. The init callback of both strategies is \<^verbatim>\<open>strat_leastconn_init\<close>, which returns
  \<open>LB_OK\<close> for every core. So, whatever the algorithm tag and the answers of the
  operating system, \<^verbatim>\<open>lb_core_create\<close> never makes a call of the strategy-init failure
  branch (no error log, no close of the descriptor, no destruction of the lock), and its
  status is \<open>LB_OK\<close> (then, and only then, a core is returned), \<open>LB_ERR_INVAL\<close> (exactly
  when the output pointer is null), \<open>LB_ERR_NOMEM\<close> (exactly when the allocation of the
  core fails) or \<open>LB_ERR_SYS\<close> (exactly when \<^verbatim>\<open>epoll_create1\<close> fails).
\<close>

theorem strategy_init_never_fails:
  "strat_leastconn_init lb = LB_OK \<and>
   init STRAT_LEASTCONN = Some Strat_leastconn_init \<and>
   init STRAT_RR = Some Strat_leastconn_init \<and>
   call_init Strat_leastconn_init lb = LB_OK \<and>
   (case lb_core_create env port_a algo out of
      (s, r, tr) \<Rightarrow>
        \<not> list_ex init_failure_call tr \<and>
        (s = LB_OK \<or> s = LB_ERR_INVAL \<or> s = LB_ERR_NOMEM \<or> s = LB_ERR_SYS) \<and>
        (s = LB_ERR_INVAL) = (\<not> out) \<and>
        (s = LB_ERR_NOMEM) = (out \<and> \<not> calloc_core env) \<and>
        (s = LB_ERR_SYS) = (out \<and> calloc_core env \<and> epoll_create1 env < 0) \<and>
        (s = LB_OK) = (r \<noteq> None))"
proof -
  consider "\<not> out" | "out" "\<not> calloc_core env" | "out" "calloc_core env" "epoll_create1 env < 0"
    | "out" "calloc_core env" "0 \<le> epoll_create1 env"
    by linarith
  then have "case lb_core_create env port_a algo out of
      (s, r, tr) \<Rightarrow>
        \<not> list_ex init_failure_call tr \<and>
        (s = LB_OK \<or> s = LB_ERR_INVAL \<or> s = LB_ERR_NOMEM \<or> s = LB_ERR_SYS) \<and>
        (s = LB_ERR_INVAL) = (\<not> out) \<and>
        (s = LB_ERR_NOMEM) = (out \<and> \<not> calloc_core env) \<and>
        (s = LB_ERR_SYS) = (out \<and> calloc_core env \<and> epoll_create1 env < 0) \<and>
        (s = LB_OK) = (r \<noteq> None)"
    by cases (simp_all add: create_failures create_success)
  then show ?thesis
    by (simp add: strat_leastconn_init_def STRAT_LEASTCONN_def STRAT_RR_def)
qed

theorem strategy_init_never_fails_witness:
  "lb_core_create example_env 8080 LB_ALGO_ROUNDROBIN True =
     (LB_OK, Some (created_core example_env 8080 LB_ALGO_ROUNDROBIN),
      [Calloc_core, Epoll_create1, Spin_init_backends_lock, Mmap,
       Log LB_LOG_WARN ''core'' ''Memory pool disabled: mmap failed'' [],
       Sysconf, Thread_pool_start,
       Log LB_LOG_WARN ''core'' ''Thread-pool not started: %s'' [Arg_str ''NOMEM''],
       Log LB_LOG_INFO ''core'' ''lb_core created on port %u with strategy %s''
         [Arg_uint 8080, Arg_str ''roundrobin'']]) \<and>
   \<not> list_ex init_failure_call
       (snd (snd (lb_core_create example_env 8080 LB_ALGO_ROUNDROBIN True))) \<and>
   fst (lb_core_create (example_env\<lparr>epoll_create1 := - 1\<rparr>) 8080 LB_ALGO_ROUNDROBIN True) =
     LB_ERR_SYS"
proof -
  have "lb_core_create example_env 8080 LB_ALGO_ROUNDROBIN True =
     (LB_OK, Some (created_core example_env 8080 LB_ALGO_ROUNDROBIN),
      [Calloc_core, Epoll_create1, Spin_init_backends_lock, Mmap,
       Log LB_LOG_WARN ''core'' ''Memory pool disabled: mmap failed'' [],
       Sysconf, Thread_pool_start,
       Log LB_LOG_WARN ''core'' ''Thread-pool not started: %s'' [Arg_str ''NOMEM''],
       Log LB_LOG_INFO ''core'' ''lb_core created on port %u with strategy %s''
         [Arg_uint 8080, Arg_str ''roundrobin'']])"
    by (simp add: create_success example_env_def STRAT_RR_def)
  then show ?thesis
    using strategy_init_never_fails [where lb = fresh_core and env = example_env
        and port_a = 8080 and algo = LB_ALGO_ROUNDROBIN and out = True]
      strategy_init_never_fails [where lb = fresh_core
        and env = "example_env\<lparr>epoll_create1 := - 1\<rparr>"
        and port_a = 8080 and algo = LB_ALGO_ROUNDROBIN and out = True]
    by (simp add: example_env_def split: prod.splits)
qed

lemma add_backend_strategy:
  "lb_core_add_backend ok h (Some c) host_a port_a weight_a = (s, h', lb') \<Longrightarrow>
     map_option strategy lb' = Some (strategy c)"
  by (auto simp: add_backend_cases split: if_splits)

lemma add_backends_strategy:
  "add_backends h (Some c) calls = (ss, h', lb') \<Longrightarrow> map_option strategy lb' = Some (strategy c)"
proof (induction calls arbitrary: h c ss h' lb')
  case Nil
  then show ?case by auto
next
  case (Cons call calls)
  obtain ok host_a port_a weight_a where call: "call = (ok, host_a, port_a, weight_a)"
    by (cases call)
  obtain s h1 lb1 where step: "lb_core_add_backend ok h (Some c) host_a port_a weight_a = (s, h1, lb1)"
    by (cases "lb_core_add_backend ok h (Some c) host_a port_a weight_a")
  from add_backend_strategy [OF step] obtain c1 where c1: "lb1 = Some c1" "strategy c1 = strategy c"
    by auto
  from Cons.prems call step c1 obtain ss1 where "add_backends h1 (Some c1) calls = (ss1, h', lb')"
    by (auto split: prod.splits)
  from Cons.IH [OF this] c1 show ?case
    by simp
qed

text \<open>
  Claim C6. The factory maps \<open>LB_ALGO_ROUNDROBIN\<close> to \<open>STRAT_RR\<close>, \<open>LB_ALGO_LEASTCONN\<close> to
  \<open>STRAT_LEASTCONN\<close> and every other tag to \<open>STRAT_LEASTCONN\<close>, whose name is
  \<open>''leastconn''\<close>. Creation with another tag has the status of creation with
  \<open>LB_ALGO_LEASTCONN\<close>; it succeeds when the output pointer is non-null, the core can be
  allocated and \<^verbatim>\<open>epoll_create1\<close> succeeds. The core returned has the strategy
  \<open>STRAT_LEASTCONN\<close>, the name logged is \<open>''leastconn''\<close>, and the select pointer is
  \<^verbatim>\<open>strat_leastconn_select\<close>, also after any calls of \<^verbatim>\<open>lb_core_add_backend\<close>; a call
  through that pointer is a call of \<^verbatim>\<open>strat_leastconn_select\<close>. Creation with
  \<open>LB_ALGO_LEASTCONN\<close> makes the same calls and returns the same core but for the tag
  stored in it.
\<close>

theorem unknown_algo_falls_back:
  "lb_strategy_from_algo LB_ALGO_ROUNDROBIN = STRAT_RR \<and>
   lb_strategy_from_algo LB_ALGO_LEASTCONN = STRAT_LEASTCONN \<and>
   lb_strategy_from_algo (LB_ALGO_OTHER a) = STRAT_LEASTCONN \<and>
   name (lb_strategy_from_algo (LB_ALGO_OTHER a)) = ''leastconn'' \<and>
   fst (lb_core_create env port_a (LB_ALGO_OTHER a) out) =
     fst (lb_core_create env port_a LB_ALGO_LEASTCONN out) \<and>
   (out \<and> calloc_core env \<and> 0 \<le> epoll_create1 env \<longrightarrow>
      (\<exists>c tr. lb_core_create env port_a (LB_ALGO_OTHER a) out = (LB_OK, Some c, tr) \<and>
         lb_core_create env port_a LB_ALGO_LEASTCONN out =
           (LB_OK, Some (c\<lparr>algorithm := LB_ALGO_LEASTCONN\<rparr>), tr) \<and>
         last tr = Log LB_LOG_INFO ''core'' ''lb_core created on port %u with strategy %s''
                     [Arg_uint (unat port_a), Arg_str ''leastconn''] \<and>
         strategy c = STRAT_LEASTCONN \<and>
         select (strategy c) = Some Strat_leastconn_select \<and>
         (\<forall>h calls. map_option (\<lambda>c'. select (strategy c'))
                       (snd (snd (add_backends h (Some c) calls))) =
                     Some (Some Strat_leastconn_select)))) \<and>
   call_select Strat_leastconn_select h lb client =
     (case strat_leastconn_select h lb client of Inl f \<Rightarrow> Inl f | Inr r \<Rightarrow> Inr (r, lb))"
proof -
  have st: "fst (lb_core_create env port_a (LB_ALGO_OTHER a) out) =
     fst (lb_core_create env port_a LB_ALGO_LEASTCONN out)"
  proof -
    consider "\<not> out" | "out" "\<not> calloc_core env" | "out" "calloc_core env" "epoll_create1 env < 0"
      | "out" "calloc_core env" "0 \<le> epoll_create1 env"
      by linarith
    then show ?thesis
      by cases (simp_all add: create_failures create_success)
  qed
  have sel: "map_option (\<lambda>c'. select (strategy c'))
               (snd (snd (add_backends h (Some (created_core env port_a (LB_ALGO_OTHER a))) calls))) =
             Some (Some Strat_leastconn_select)" for h calls
  proof -
    let ?c = "created_core env port_a (LB_ALGO_OTHER a)"
    obtain ss h' lb' where r: "add_backends h (Some ?c) calls = (ss, h', lb')"
      by (cases "add_backends h (Some ?c) calls")
    from add_backends_strategy [OF r] obtain c' where "lb' = Some c'" "strategy c' = strategy ?c"
      by auto
    with r show ?thesis
      by (simp add: created_core_def Let_def STRAT_LEASTCONN_def)
  qed
  show ?thesis
    using st sel
    by (simp add: create_success created_core_def Let_def STRAT_LEASTCONN_def)
qed

theorem unknown_algo_falls_back_witness:
  "calloc_core example_env \<and> 0 \<le> epoll_create1 example_env \<and>
   fst (lb_core_create example_env 8080 (LB_ALGO_OTHER 7) True) = LB_OK \<and>
   map_option (\<lambda>c. name (strategy c))
     (fst (snd (lb_core_create example_env 8080 (LB_ALGO_OTHER 7) True))) = Some ''leastconn''"
proof -
  have e: "calloc_core example_env \<and> 0 \<le> epoll_create1 example_env"
    by (simp add: example_env_def)
  from unknown_algo_falls_back [where a = 7 and env = example_env and port_a = 8080
      and out = True and h = "[]" and lb = fresh_core and client = None] e
  show ?thesis
    by (auto simp: STRAT_LEASTCONN_def)
qed

subsection \<open>Least-connections selection\<close>











text \<open>
  With an UP backend at \<open>UINT32_MAX\<close> active connections the scan does not take it: the
  running minimum starts at that value and a backend replaces the selection only when its
  count is strictly below the minimum.
\<close>

lemma leastconn_at_uint32_max:
  "is_up (example_heap [BACKEND_DOWN, BACKEND_UP, BACKEND_DOWN] [0, 0xFFFFFFFF, 0])
     (backends (example_core LB_ALGO_LEASTCONN 0) ! 1) \<and>
   strat_leastconn_select (example_heap [BACKEND_DOWN, BACKEND_UP, BACKEND_DOWN] [0, 0xFFFFFFFF, 0])
     (example_core LB_ALGO_LEASTCONN 0) None = Inr None"
  by (simp add: strat_leastconn_select_def leastconn_scan.simps array_read_def deref_def
        is_up_def UINT32_MAX_def example_heap_sel)



end
